(* ===== verification/Prelude.thy ===== *)
theory Prelude
  imports Main "HOL-Library.Multiset" "HOL-Library.Char_ord" "HOL-Library.List_Lexorder"
begin

text \<open>
  Shared vocabulary of the development.

  \<^item> results and effects: a fallible computation returns \<open>'e + 'a\<close> (\<open>Inl\<close> the error); an
    asynchronous call that may touch the outside (an HTTP request, a database read, the clock) is a
    function of the outside's state, \<open>'w \<Rightarrow> ('e + 'a) \<times> 'w\<close>. \<open>io_try\<close> is Rust's \<open>?\<close>.
  \<^item> the contract of a comparator passed to Rust's stable \<open>slice::sort_by\<close> (locale
    \<open>comparator\<close>), and the facts every caller of \<open>sort_by\<close> needs.
  \<^item> generic facts on lists, options and maps.
\<close>

named_theorems io_simps "unfolding of the effectful combinators"
named_theorems result_simps "facts on results and their error branches"

section \<open>Results and effects\<close>

type_synonym ('w, 'e, 'a) io = "'w \<Rightarrow> ('e + 'a) \<times> 'w"

definition io_ok :: "'a \<Rightarrow> ('w, 'e, 'a) io" where
  "io_ok x w = (Inr x, w)"

definition io_err :: "'e \<Rightarrow> ('w, 'e, 'a) io" where
  "io_err e w = (Inl e, w)"

definition io_try :: "('w, 'e, 'a) io \<Rightarrow> ('a \<Rightarrow> ('w, 'e, 'b) io) \<Rightarrow> ('w, 'e, 'b) io" where
  "io_try m k w = (case m w of (Inl e, w') \<Rightarrow> (Inl e, w') | (Inr x, w') \<Rightarrow> k x w')"

definition io_lift :: "'e + 'a \<Rightarrow> ('w, 'e, 'a) io" where
  "io_lift r w = (r, w)"

fun try_res :: "'e + 'a \<Rightarrow> ('a \<Rightarrow> 'e + 'b) \<Rightarrow> 'e + 'b" where
  "try_res (Inl e) k = Inl e"
| "try_res (Inr x) k = k x"

fun map_err :: "('e \<Rightarrow> 'f) \<Rightarrow> 'e + 'a \<Rightarrow> 'f + 'a" where
  "map_err f (Inl e) = Inl (f e)"
| "map_err f (Inr x) = Inr x"

fun is_ok :: "'e + 'a \<Rightarrow> bool" where
  "is_ok (Inl _) = False"
| "is_ok (Inr _) = True"

definition io_map_err :: "('e \<Rightarrow> 'f) \<Rightarrow> ('w, 'e, 'a) io \<Rightarrow> ('w, 'f, 'a) io" where
  "io_map_err f m w = (case m w of (r, w') \<Rightarrow> (map_err f r, w'))"

declare io_ok_def [io_simps] io_err_def [io_simps] io_lift_def [io_simps] io_try_def [io_simps]

lemma try_res_Inr [result_simps]: "try_res r k = Inr y \<longleftrightarrow> (\<exists>x. r = Inr x \<and> k x = Inr y)"
  by (cases r) auto

lemma try_res_Inl [result_simps]:
  "try_res r k = Inl e \<longleftrightarrow> r = Inl e \<or> (\<exists>x. r = Inr x \<and> k x = Inl e)"
  by (cases r) auto

lemma map_err_Inr [result_simps]: "map_err f r = Inr x \<longleftrightarrow> r = Inr x"
  by (cases r) auto

lemma map_err_Inl [result_simps]: "map_err f r = Inl e \<longleftrightarrow> (\<exists>e'. r = Inl e' \<and> e = f e')"
  by (cases r) auto

lemma is_ok_iff [result_simps]: "is_ok r \<longleftrightarrow> (\<exists>x. r = Inr x)"
  by (cases r) auto

lemma io_try_Inr [result_simps]:
  "io_try m k w = (Inr y, w'') \<longleftrightarrow> (\<exists>x w'. m w = (Inr x, w') \<and> k x w' = (Inr y, w''))"
  by (auto simp: io_try_def split: prod.splits sum.splits)

lemma io_try_Inl [result_simps]:
  "io_try m k w = (Inl e, w'') \<longleftrightarrow>
     m w = (Inl e, w'') \<or> (\<exists>x w'. m w = (Inr x, w') \<and> k x w' = (Inl e, w''))"
  by (auto simp: io_try_def split: prod.splits sum.splits)

lemma io_map_err_Inr [result_simps]: "io_map_err f m w = (Inr x, w') \<longleftrightarrow> m w = (Inr x, w')"
  by (auto simp: io_map_err_def map_err_Inr split: prod.splits)

lemma io_map_err_Inl [result_simps]:
  "io_map_err f m w = (Inl e, w') \<longleftrightarrow> (\<exists>e'. m w = (Inl e', w') \<and> e = f e')"
  by (auto simp: io_map_err_def map_err_Inl split: prod.splits)

lemma io_try_cases:
  assumes "io_try m k w = (r, w'')"
  obtains (err) e where "m w = (Inl e, w'')" "r = Inl e"
  | (ok) x w' where "m w = (Inr x, w')" "k x w' = (r, w'')"
  using assms by (auto simp: io_try_def split: prod.splits sum.splits)

lemma io_try_eq_ok [simp]: "m w = (Inr x, w') \<Longrightarrow> io_try m k w = k x w'"
  by (simp add: io_try_def)

lemma io_try_eq_err [simp]: "m w = (Inl e, w') \<Longrightarrow> io_try m k w = (Inl e, w')"
  by (simp add: io_try_def)

section \<open>Stable sorting by a comparator\<close>

text \<open>
  Rust's \<open>v.sort_by(cmp)\<close> is a stable sort. Its argument is represented by
  \<open>le a b \<longleftrightarrow> cmp a b \<noteq> Greater\<close>. Insertion from the right, placing an element in front
  of those it does not exceed, keeps equal elements in their original order.
\<close>

fun insort_by :: "('a \<Rightarrow> 'a \<Rightarrow> bool) \<Rightarrow> 'a \<Rightarrow> 'a list \<Rightarrow> 'a list" where
  "insort_by le x [] = [x]"
| "insort_by le x (y # ys) = (if le x y then x # y # ys else y # insort_by le x ys)"

fun sort_by :: "('a \<Rightarrow> 'a \<Rightarrow> bool) \<Rightarrow> 'a list \<Rightarrow> 'a list" where
  "sort_by le [] = []"
| "sort_by le (x # xs) = insort_by le x (sort_by le xs)"

lemma mset_insort_by [simp]: "mset (insort_by le x ys) = add_mset x (mset ys)"
  by (induction ys) auto

lemma mset_sort_by [simp]: "mset (sort_by le xs) = mset xs"
  by (induction xs) auto

lemma set_sort_by [simp]: "set (sort_by le xs) = set xs"
  using mset_sort_by by (metis mset_eq_setD)

lemma length_sort_by [simp]: "length (sort_by le xs) = length xs"
  using mset_sort_by by (metis mset_eq_length)

lemma distinct_sort_by [simp]: "distinct (sort_by le xs) = distinct xs"
  using mset_sort_by by (metis mset_eq_imp_distinct_iff)

text \<open>The contract \<open>sort_by\<close> relies on: the comparator is a total preorder.\<close>

locale comparator =
  fixes le :: "'a \<Rightarrow> 'a \<Rightarrow> bool"
  assumes total: "le x y \<or> le y x"
    and trans: "le x y \<Longrightarrow> le y z \<Longrightarrow> le x z"
begin

lemma le_refl: "le x x"
  using total by blast

lemma sorted_insort_by: "sorted_wrt le ys \<Longrightarrow> sorted_wrt le (insort_by le x ys)"
proof (induction ys)
  case Nil
  then show ?case by simp
next
  case (Cons y ys)
  show ?case
  proof (cases "le x y")
    case True
    with Cons.prems show ?thesis by (auto intro: trans)
  next
    case False
    then have "le y x" using total by blast
    moreover have "set (insort_by le x ys) = insert x (set ys)"
      by (metis mset_insort_by set_mset_add_mset_insert set_mset_mset)
    ultimately show ?thesis using False Cons by auto
  qed
qed

lemma sorted_sort_by: "sorted_wrt le (sort_by le xs)"
  by (induction xs) (auto intro: sorted_insort_by)

lemma filter_insort_by:
  assumes "\<And>y. y \<in> set ys \<Longrightarrow> P x \<Longrightarrow> P y \<Longrightarrow> le x y"
  shows "filter P (insort_by le x ys) = (if P x then x # filter P ys else filter P ys)"
  using assms
proof (induction ys)
  case Nil
  then show ?case by simp
next
  case (Cons y ys)
  then show ?case by auto
qed

lemma stable_sort_by:
  assumes "\<And>x y. P x \<Longrightarrow> P y \<Longrightarrow> le x y"
  shows "filter P (sort_by le xs) = filter P xs"
proof (induction xs)
  case Nil
  then show ?case by simp
next
  case (Cons x xs)
  have "filter P (insort_by le x (sort_by le xs)) =
      (if P x then x # filter P (sort_by le xs) else filter P (sort_by le xs))"
    using assms by (intro filter_insort_by) blast
  with Cons.IH show ?case by simp
qed

text \<open>A sort is determined by its elements when no two of them tie.\<close>

lemma sorted_unique:
  assumes "sorted_wrt le xs" "sorted_wrt le ys" "mset xs = mset ys"
    and anti: "\<And>x y. x \<in> set xs \<Longrightarrow> y \<in> set xs \<Longrightarrow> le x y \<Longrightarrow> le y x \<Longrightarrow> x = y"
  shows "xs = ys"
  using assms
proof (induction xs arbitrary: ys)
  case Nil
  then show ?case by simp
next
  case (Cons x xs)
  then obtain y zs where ys: "ys = y # zs"
    by (cases ys) auto
  have sets: "set (x # xs) = set ys"
    using Cons.prems(3) by (metis mset_eq_setD)
  have "y \<in> set (x # xs)" "x \<in> set ys"
    using sets ys by auto
  have "le x y"
    using \<open>y \<in> set (x # xs)\<close> Cons.prems(1) le_refl by auto
  moreover have "le y x"
    using \<open>x \<in> set ys\<close> Cons.prems(2) ys le_refl by auto
  ultimately have "x = y"
    using Cons.prems(4) \<open>y \<in> set (x # xs)\<close> by auto
  moreover have "xs = zs"
  proof (rule Cons.IH)
    show "sorted_wrt le xs" using Cons.prems(1) by simp
    show "sorted_wrt le zs" using Cons.prems(2) ys by simp
    show "mset xs = mset zs" using Cons.prems(3) ys \<open>x = y\<close> by simp
    show "\<And>u v. u \<in> set xs \<Longrightarrow> v \<in> set xs \<Longrightarrow> le u v \<Longrightarrow> le v u \<Longrightarrow> u = v"
      using Cons.prems(4) by simp
  qed
  ultimately show ?case using ys by simp
qed

lemma sort_by_perm_eq:
  assumes "mset xs = mset ys"
    and "\<And>x y. x \<in> set xs \<Longrightarrow> y \<in> set xs \<Longrightarrow> le x y \<Longrightarrow> le y x \<Longrightarrow> x = y"
  shows "sort_by le xs = sort_by le ys"
  using assms by (intro sorted_unique) (auto simp: sorted_sort_by)

end

section \<open>Lists, options and maps\<close>

lemma find_SomeD: "find P xs = Some x \<Longrightarrow> x \<in> set xs \<and> P x"
  by (auto simp: find_Some_iff)

lemma map_of_distinct_mset:
  assumes "map_of xs = map_of ys" "distinct (map fst xs)" "distinct (map fst ys)"
  shows "mset xs = mset ys"
proof -
  have "set xs = set ys"
  proof (rule set_eqI)
    fix p :: "'a \<times> 'b"
    obtain k v where "p = (k, v)" by (cases p)
    then show "p \<in> set xs \<longleftrightarrow> p \<in> set ys"
      using map_of_eq_Some_iff [OF assms(2), of k v] map_of_eq_Some_iff [OF assms(3), of k v]
        assms(1) by simp
  qed
  moreover have "distinct xs" "distinct ys"
    using assms by (auto simp: distinct_map)
  ultimately show ?thesis by (metis set_eq_iff_mset_eq_distinct)
qed

end
