(* ===== verification/Rust_Str.thy ===== *)
theory Rust_Str
  imports Prelude "HOL-Library.Sublist"
begin

text \<open>
  The operations of Rust's \<open>str\<close> the program uses. A \<open>string\<close> here is the list of the UTF-8
  bytes of the Rust string (a \<open>char\<close> is a byte), so \<open>length\<close> is \<open>str::len\<close>, \<open>sublist\<close> is
  \<open>str::contains\<close> and the order of strings is \<open>str::cmp\<close>. White space is Unicode's
  \<open>White_Space\<close>, listed by its encodings: UTF-8 is prefix free and self-synchronising, so
  matching an encoding at the byte level is matching the character.
\<close>

named_theorems str_simps "facts on the string operations"

section \<open>Prefixes, suffixes, splitting\<close>

definition nl :: char where "nl = CHR 0x0A"
definition cr :: char where "cr = CHR 0x0D"
definition quote :: char where "quote = CHR 0x27"

definition strip_prefix :: "string \<Rightarrow> string \<Rightarrow> string option" where
  "strip_prefix p s = (if prefix p s then Some (drop (length p) s) else None)"

definition strip_suffix :: "string \<Rightarrow> string \<Rightarrow> string option" where
  "strip_suffix p s = (if suffix p s then Some (take (length s - length p) s) else None)"

definition str_contains :: "string \<Rightarrow> string \<Rightarrow> bool" where
  "str_contains hay needle = sublist needle hay"

text \<open>\<open>slice::split\<close> on one byte: the pieces between the separators, at least one piece.\<close>

fun split_on :: "char \<Rightarrow> string \<Rightarrow> string list" where
  "split_on c [] = [[]]"
| "split_on c (x # xs) =
     (if x = c then [] # split_on c xs
      else (case split_on c xs of [] \<Rightarrow> [[x]] | p # ps \<Rightarrow> (x # p) # ps))"

text \<open>\<open>str::lines\<close>: pieces that end in a line feed, each without its line ending; a last piece
  without a line feed is kept as it is, an empty one is not a line.\<close>

fun split_inclusive_nl :: "string \<Rightarrow> string list" where
  "split_inclusive_nl [] = []"
| "split_inclusive_nl (x # xs) =
     (if x = nl then [x] # split_inclusive_nl xs
      else (case split_inclusive_nl xs of [] \<Rightarrow> [[x]] | p # ps \<Rightarrow> (x # p) # ps))"

definition line_of :: "string \<Rightarrow> string" where
  "line_of l =
     (case strip_suffix [nl] l of
        None \<Rightarrow> l
      | Some l' \<Rightarrow> (case strip_suffix [cr] l' of None \<Rightarrow> l' | Some l'' \<Rightarrow> l''))"

definition str_lines :: "string \<Rightarrow> string list" where
  "str_lines s = map line_of (split_inclusive_nl s)"

fun str_join :: "string \<Rightarrow> string list \<Rightarrow> string" where
  "str_join sep [] = []"
| "str_join sep [x] = x"
| "str_join sep (x # y # ys) = x @ sep @ str_join sep (y # ys)"

text \<open>\<open>s.replace('\'', "''")\<close>.\<close>

definition double_quotes :: "string \<Rightarrow> string" where
  "double_quotes s = concat (map (\<lambda>c. if c = quote then [quote, quote] else [c]) s)"

section \<open>White space\<close>

definition ws_encodings :: "string list" where
  "ws_encodings =
     [[CHR 0x20], [CHR 0x09], [CHR 0x0A],
      [CHR 0x0B], [CHR 0x0C], [CHR 0x0D],
      [CHR 0xC2, CHR 0x85], [CHR 0xC2, CHR 0xA0], [CHR 0xE1, CHR 0x9A, CHR 0x80],
      [CHR 0xE2, CHR 0x80, CHR 0x80], [CHR 0xE2, CHR 0x80, CHR 0x81], [CHR 0xE2, CHR 0x80, CHR 0x82],
      [CHR 0xE2, CHR 0x80, CHR 0x83], [CHR 0xE2, CHR 0x80, CHR 0x84], [CHR 0xE2, CHR 0x80, CHR 0x85],
      [CHR 0xE2, CHR 0x80, CHR 0x86], [CHR 0xE2, CHR 0x80, CHR 0x87], [CHR 0xE2, CHR 0x80, CHR 0x88],
      [CHR 0xE2, CHR 0x80, CHR 0x89], [CHR 0xE2, CHR 0x80, CHR 0x8A], [CHR 0xE2, CHR 0x80, CHR 0xA8],
      [CHR 0xE2, CHR 0x80, CHR 0xA9], [CHR 0xE2, CHR 0x80, CHR 0xAF], [CHR 0xE2, CHR 0x81, CHR 0x9F],
      [CHR 0xE3, CHR 0x80, CHR 0x80]]"

definition ws_at :: "string list \<Rightarrow> string \<Rightarrow> string option" where
  "ws_at encs s = find (\<lambda>e. e \<noteq> [] \<and> prefix e s) encs"

function strip_ws :: "string list \<Rightarrow> string \<Rightarrow> string" where
  "strip_ws encs s =
     (case ws_at encs s of None \<Rightarrow> s | Some e \<Rightarrow> strip_ws encs (drop (length e) s))"
  by pat_completeness auto
termination
proof (relation "measure (\<lambda>(encs, s). length s)", simp)
  fix encs s e
  assume "ws_at encs s = Some e"
  then have "e \<noteq> []" "prefix e s"
    by (auto simp: ws_at_def dest: find_SomeD)
  then show "((encs, drop (length e) s), (encs, s)) \<in> measure (\<lambda>(encs, s). length s)"
    by (cases s) auto
qed

declare strip_ws.simps [simp del]

definition trim_start :: "string \<Rightarrow> string" where
  "trim_start s = strip_ws ws_encodings s"

definition trim_end :: "string \<Rightarrow> string" where
  "trim_end s = rev (strip_ws (map rev ws_encodings) (rev s))"

definition trim :: "string \<Rightarrow> string" where
  "trim s = trim_end (trim_start s)"

text \<open>\<open>split_whitespace\<close>: the maximal runs without white space.\<close>

function split_ws :: "string \<Rightarrow> string \<Rightarrow> string list" where
  "split_ws acc s =
     (case ws_at ws_encodings s of
        Some e \<Rightarrow> (if acc = [] then [] else [acc]) @ split_ws [] (drop (length e) s)
      | None \<Rightarrow>
          (case s of
             [] \<Rightarrow> (if acc = [] then [] else [acc])
           | c # cs \<Rightarrow> split_ws (acc @ [c]) cs))"
  by pat_completeness auto
termination
proof (relation "measure (\<lambda>(acc, s). length s)", simp)
  fix acc s e
  assume "ws_at ws_encodings s = Some e"
  then have "e \<noteq> []" "prefix e s"
    by (auto simp: ws_at_def dest: find_SomeD)
  then show "(([], drop (length e) s), (acc, s)) \<in> measure (\<lambda>(acc, s). length s)"
    by (cases s) auto
qed auto

declare split_ws.simps [simp del]

definition split_whitespace :: "string \<Rightarrow> string list" where
  "split_whitespace s = split_ws [] s"

section \<open>ASCII case\<close>

definition ascii_lower :: "char \<Rightarrow> char" where
  "ascii_lower c = (if 65 \<le> (of_char c :: nat) \<and> (of_char c :: nat) \<le> 90
     then char_of ((of_char c :: nat) + 32) else c)"

definition eq_ignore_ascii_case :: "string \<Rightarrow> string \<Rightarrow> bool" where
  "eq_ignore_ascii_case a b \<longleftrightarrow> map ascii_lower a = map ascii_lower b"

section \<open>Decimal numbers\<close>

definition digit_char :: "nat \<Rightarrow> char" where
  "digit_char d = char_of (48 + d)"

fun show_nat :: "nat \<Rightarrow> string" where
  "show_nat n = (if n < 10 then [digit_char n] else show_nat (n div 10) @ [digit_char (n mod 10)])"

declare show_nat.simps [simp del]

definition digit_value :: "char \<Rightarrow> nat option" where
  "digit_value c = (let k = of_char c :: nat in if 48 \<le> k \<and> k \<le> 57 then Some (k - 48) else None)"

fun parse_digits :: "nat \<Rightarrow> string \<Rightarrow> nat option" where
  "parse_digits acc [] = Some acc"
| "parse_digits acc (c # cs) =
     (case digit_value c of None \<Rightarrow> None | Some d \<Rightarrow> parse_digits (10 * acc + d) cs)"

text \<open>\<open>str::parse::<usize>()\<close> (and \<open>u64\<close>) on a 64-bit target: an optional plus sign, at least one
  digit, digits only, no overflow.\<close>

definition parse_usize :: "string \<Rightarrow> nat option" where
  "parse_usize s =
     (let ds = (case strip_prefix [CHR 0x2B] s of Some t \<Rightarrow> t | None \<Rightarrow> s) in
      if ds = [] then None
      else (case parse_digits 0 ds of
              None \<Rightarrow> None
            | Some n \<Rightarrow> if n < 2 ^ 64 then Some n else None))"

section \<open>UTF-8\<close>

text \<open>The check of \<open>String::from_utf8\<close>: well-formed sequences of the Unicode standard, no overlong
  forms, no surrogates, nothing above U+10FFFF.\<close>

definition in_range :: "nat \<Rightarrow> nat \<Rightarrow> char \<Rightarrow> bool" where
  "in_range lo hi c \<longleftrightarrow> lo \<le> (of_char c :: nat) \<and> (of_char c :: nat) \<le> hi"

definition utf8_tail :: "char \<Rightarrow> bool" where
  "utf8_tail c \<longleftrightarrow> in_range 0x80 0xBF c"

definition utf8_pair :: "char \<Rightarrow> char \<Rightarrow> bool" where
  "utf8_pair a b \<longleftrightarrow> in_range 0xC2 0xDF a \<and> utf8_tail b"

definition utf8_triple :: "char \<Rightarrow> char \<Rightarrow> char \<Rightarrow> bool" where
  "utf8_triple a b c \<longleftrightarrow> utf8_tail c \<and>
     (in_range 0xE0 0xE0 a \<and> in_range 0xA0 0xBF b \<or> in_range 0xE1 0xEC a \<and> utf8_tail b \<or>
      in_range 0xED 0xED a \<and> in_range 0x80 0x9F b \<or> in_range 0xEE 0xEF a \<and> utf8_tail b)"

definition utf8_quad :: "char \<Rightarrow> char \<Rightarrow> char \<Rightarrow> char \<Rightarrow> bool" where
  "utf8_quad a b c d \<longleftrightarrow> utf8_tail c \<and> utf8_tail d \<and>
     (in_range 0xF0 0xF0 a \<and> in_range 0x90 0xBF b \<or> in_range 0xF1 0xF3 a \<and> utf8_tail b \<or>
      in_range 0xF4 0xF4 a \<and> in_range 0x80 0x8F b)"

fun utf8_valid :: "string \<Rightarrow> bool" where
  "utf8_valid [] = True"
| "utf8_valid (a # s) =
     (if in_range 0 0x7F a then utf8_valid s
      else (case s of
              [] \<Rightarrow> False
            | b # t \<Rightarrow>
                (if utf8_pair a b then utf8_valid t
                 else (case t of
                         [] \<Rightarrow> False
                       | c # u \<Rightarrow>
                           (if utf8_triple a b c then utf8_valid u
                            else (case u of
                                    [] \<Rightarrow> False
                                  | d # v \<Rightarrow> utf8_quad a b c d \<and> utf8_valid v))))))"

lemma utf8_valid_ascii: "list_all (in_range 0 0x7F) s \<Longrightarrow> utf8_valid s"
  by (induction s) auto

lemma utf8_valid_ascii_append: "list_all (in_range 0 0x7F) s \<Longrightarrow> utf8_valid (s @ t) = utf8_valid t"
  by (induction s) auto

section \<open>Facts\<close>

lemma strip_prefix_append [simp]: "strip_prefix p (p @ s) = Some s"
  by (simp add: strip_prefix_def)

lemma strip_prefix_Some [str_simps]: "strip_prefix p s = Some t \<longleftrightarrow> s = p @ t"
  by (auto simp: strip_prefix_def prefix_def)

lemma strip_prefix_None [str_simps]: "strip_prefix p s = None \<longleftrightarrow> \<not> prefix p s"
  by (simp add: strip_prefix_def)

lemma strip_suffix_append [simp]: "strip_suffix p (s @ p) = Some s"
  by (simp add: strip_suffix_def suffix_def)

lemma strip_suffix_Some [str_simps]: "strip_suffix p s = Some t \<longleftrightarrow> s = t @ p"
  by (auto simp: strip_suffix_def suffix_def)

lemma strip_suffix_None [str_simps]: "strip_suffix p s = None \<longleftrightarrow> \<not> suffix p s"
  by (simp add: strip_suffix_def)

lemma str_contains_iff [str_simps]: "str_contains h n \<longleftrightarrow> (\<exists>a b. h = a @ n @ b)"
  by (simp add: str_contains_def sublist_def)

subsection \<open>Trimming\<close>

lemma ws_at_SomeD: "ws_at encs s = Some e \<Longrightarrow> e \<in> set encs \<and> e \<noteq> [] \<and> prefix e s"
  by (auto simp: ws_at_def dest: find_SomeD)

lemma ws_at_None: "ws_at encs s = None \<longleftrightarrow> (\<forall>e \<in> set encs. e \<noteq> [] \<longrightarrow> \<not> prefix e s)"
  by (auto simp: ws_at_def find_None_iff)

lemma ws_at_Nil [simp]: "ws_at encs [] = None"
  by (simp add: ws_at_None)

lemma strip_ws_fix: "ws_at encs s = None \<Longrightarrow> strip_ws encs s = s"
  by (simp add: strip_ws.simps)

lemma strip_ws_suffix: "suffix (strip_ws encs s) s"
proof (induction encs s rule: strip_ws.induct)
  case (1 encs s)
  show ?case
  proof (cases "ws_at encs s")
    case None
    then show ?thesis by (simp add: strip_ws_fix)
  next
    case (Some e)
    with 1 have "suffix (strip_ws encs (drop (length e) s)) (drop (length e) s)" by simp
    also have "suffix (drop (length e) s) s" by (rule suffix_drop)
    finally show ?thesis using Some by (simp add: strip_ws.simps [of encs s])
  qed
qed

lemma strip_ws_done [simp]: "ws_at encs (strip_ws encs s) = None"
proof (induction encs s rule: strip_ws.induct)
  case (1 encs s)
  then show ?case
    by (cases "ws_at encs s") (simp_all add: strip_ws.simps [of encs s])
qed

lemma ws_at_prefix_None: "ws_at encs s = None \<Longrightarrow> prefix t s \<Longrightarrow> ws_at encs t = None"
  using prefix_order.trans by (fastforce simp: ws_at_None)

lemma prefix_trim_end: "prefix (trim_end s) s"
  using strip_ws_suffix [of "map rev ws_encodings" "rev s"]
  by (simp add: trim_end_def suffix_to_prefix)

lemma ws_at_trim [simp]: "ws_at ws_encodings (trim s) = None"
  by (rule ws_at_prefix_None [OF _ prefix_trim_end, of _ "trim_start s", folded trim_def])
    (simp add: trim_start_def)

lemma ws_at_rev_trim [simp]: "ws_at (map rev ws_encodings) (rev (trim s)) = None"
  by (simp add: trim_def trim_end_def)

lemma trim_fixI:
  assumes "ws_at ws_encodings s = None" "ws_at (map rev ws_encodings) (rev s) = None"
  shows "trim s = s"
  using assms by (simp add: trim_def trim_start_def trim_end_def strip_ws_fix)

lemma trim_trim [simp]: "trim (trim s) = trim s"
  by (rule trim_fixI) simp_all

lemma trim_Nil [simp]: "trim [] = []"
  by (rule trim_fixI) simp_all

lemma sublist_trim: "sublist (trim s) s"
proof -
  have "prefix (trim s) (trim_start s)"
    unfolding trim_def by (rule prefix_trim_end)
  moreover have "suffix (trim_start s) s"
    unfolding trim_start_def by (rule strip_ws_suffix)
  ultimately show ?thesis
    by (meson prefix_imp_sublist suffix_imp_sublist sublist_order.order_trans)
qed

lemma length_trim_le: "length (trim s) \<le> length s"
  using sublist_trim by (rule sublist_length_le)

subsection \<open>Case folding\<close>

lemma eq_ignore_ascii_case_refl [simp]: "eq_ignore_ascii_case a a"
  by (simp add: eq_ignore_ascii_case_def)

lemma eq_ignore_ascii_case_sym: "eq_ignore_ascii_case a b \<Longrightarrow> eq_ignore_ascii_case b a"
  by (simp add: eq_ignore_ascii_case_def)

lemma eq_ignore_ascii_case_trans:
  "eq_ignore_ascii_case a b \<Longrightarrow> eq_ignore_ascii_case b c \<Longrightarrow> eq_ignore_ascii_case a c"
  by (simp add: eq_ignore_ascii_case_def)

subsection \<open>Splitting and joining\<close>

lemma split_on_nonempty [simp]: "split_on c s \<noteq> []"
  by (induction s) (auto split: list.splits)

lemma split_on_no_sep: "c \<notin> set s \<Longrightarrow> split_on c s = [s]"
  by (induction s) auto

lemma split_on_append: "c \<notin> set p \<Longrightarrow> split_on c (p @ c # s) = p # split_on c s"
  by (induction p) auto

lemma split_on_join:
  assumes "\<forall>x \<in> set xs. c \<notin> set x" "xs \<noteq> []"
  shows "split_on c (str_join [c] xs) = xs"
  using assms
  by (induction "[c]" xs rule: str_join.induct) (auto simp: split_on_no_sep split_on_append)

lemma split_inclusive_append:
  "nl \<notin> set p \<Longrightarrow> split_inclusive_nl (p @ nl # s) = (p @ [nl]) # split_inclusive_nl s"
  by (induction p) auto

lemma line_of_line [simp]: "\<not> suffix [cr] p \<Longrightarrow> line_of (p @ [nl]) = p"
  by (auto simp: line_of_def strip_suffix_Some suffix_def split: option.split)

lemma str_lines_rows:
  assumes "\<forall>r \<in> set rows. nl \<notin> set r \<and> \<not> suffix [cr] r"
  shows "str_lines (concat (map (\<lambda>r. r @ [nl]) rows)) = rows"
  using assms by (induction rows) (auto simp: str_lines_def split_inclusive_append)

lemma split_on_rows:
  assumes "\<forall>r \<in> set rows. nl \<notin> set r"
  shows "split_on nl (concat (map (\<lambda>r. r @ [nl]) rows)) = rows @ [[]]"
  using assms by (induction rows) (auto simp: split_on_append)

subsection \<open>Numbers\<close>

lemma of_char_digit [simp]: "d < 10 \<Longrightarrow> (of_char (digit_char d) :: nat) = 48 + d"
  by (simp add: digit_char_def)

lemma digit_value_digit [simp]: "d < 10 \<Longrightarrow> digit_value (digit_char d) = Some d"
  by (simp add: digit_value_def)

lemma parse_digits_append:
  "parse_digits acc (s @ t) =
     (case parse_digits acc s of None \<Rightarrow> None | Some a \<Rightarrow> parse_digits a t)"
  by (induction s arbitrary: acc) (auto split: option.splits)

lemma parse_digits_show_nat: "parse_digits 0 (show_nat n) = Some n"
proof (induction n rule: show_nat.induct)
  case (1 n)
  show ?case
  proof (cases "n < 10")
    case True
    then show ?thesis by (simp add: show_nat.simps [of n])
  next
    case False
    with 1 have "parse_digits 0 (show_nat (n div 10)) = Some (n div 10)" by simp
    with False show ?thesis by (simp add: show_nat.simps [of n] parse_digits_append)
  qed
qed

lemma show_nat_first: "\<exists>d cs. d < 10 \<and> show_nat n = digit_char d # cs"
proof (induction n rule: show_nat.induct)
  case (1 n)
  show ?case
  proof (cases "n < 10")
    case True
    then show ?thesis by (auto simp: show_nat.simps [of n])
  next
    case False
    with 1 obtain d cs where "d < 10" "show_nat (n div 10) = digit_char d # cs" by blast
    with False show ?thesis by (auto simp: show_nat.simps [of n])
  qed
qed

lemma parse_usize_show_nat:
  assumes "n < 2 ^ 64"
  shows "parse_usize (show_nat n) = Some n"
proof -
  obtain d cs where d: "d < 10" and s: "show_nat n = digit_char d # cs"
    using show_nat_first by blast
  have "(of_char (digit_char d) :: nat) \<noteq> of_char (CHR 0x2B)"
    using d by simp
  then have "digit_char d \<noteq> CHR 0x2B" by metis
  then have "strip_prefix [CHR 0x2B] (show_nat n) = None"
    by (simp add: s strip_prefix_None)
  then show ?thesis
    using assms s parse_digits_show_nat [of n] by (simp add: parse_usize_def Let_def)
qed

lemma parse_usize_bound: "parse_usize s = Some n \<Longrightarrow> n < 2 ^ 64"
  by (auto simp: parse_usize_def Let_def split: if_splits option.splits)

end
