(* ===== verification/F32.thy ===== *)
theory F32
  imports Main "HOL-Library.Word" "HOL-Library.Log_Nat"
begin

text \<open>
  IEEE 754 binary32, the semantics of Rust's \<open>f32\<close>, by bit pattern. A finite value is an integer
  multiple of \<open>2 ^ -149\<close> (the smallest subnormal); \<open>mag_val\<close> reads the low 31 bits (the
  magnitude) in that unit, so every operation is exact integer arithmetic followed by one rounding
  \<open>round_mag\<close>, to nearest with ties to even, which overflows to infinity at the IEEE threshold.
  A NaN result is the positive quiet NaN (Rust leaves the payload and the sign of a computed NaN
  open). The \<open>linorder\<close> of the type is Rust's \<open>f32::total_cmp\<close>; the comparison operators of
  Rust's \<open>PartialOrd\<close> are \<open>f32_lt\<close> and \<open>f32_le\<close>, false on NaN.
\<close>

named_theorems f32_simps "facts on binary32 values"

section \<open>Bit patterns\<close>

datatype f32 = F32 (f32_bits: "32 word")

definition inf_mag :: int where "inf_mag = 0x7F800000"

definition f32_sign :: "f32 \<Rightarrow> bool" where
  "f32_sign x \<longleftrightarrow> 2 ^ 31 \<le> uint (f32_bits x)"

definition f32_mag :: "f32 \<Rightarrow> int" where
  "f32_mag x = uint (f32_bits x) mod 2 ^ 31"

definition f32_make :: "bool \<Rightarrow> int \<Rightarrow> f32" where
  "f32_make s m = F32 (word_of_int ((if s then 2 ^ 31 else 0) + m))"

definition is_nan :: "f32 \<Rightarrow> bool" where "is_nan x \<longleftrightarrow> inf_mag < f32_mag x"
definition is_inf :: "f32 \<Rightarrow> bool" where "is_inf x \<longleftrightarrow> f32_mag x = inf_mag"
definition is_finite :: "f32 \<Rightarrow> bool" where "is_finite x \<longleftrightarrow> f32_mag x < inf_mag"

definition f32_nan :: f32 where "f32_nan = F32 0x7FC00000"
definition f32_zero :: f32 where "f32_zero = F32 0"
definition f32_one :: f32 where "f32_one = F32 0x3F800000"
definition f32_minus_one :: f32 where "f32_minus_one = F32 0xBF800000"
definition f32_min_positive :: f32 where "f32_min_positive = F32 0x00800000"

text \<open>The value of a magnitude in units of \<open>2 ^ -149\<close>; at \<open>inf_mag\<close> the formula gives the
  bound above every finite value.\<close>

definition mag_val :: "int \<Rightarrow> int" where
  "mag_val m =
     (if m < 2 ^ 23 then m else (2 ^ 23 + m mod 2 ^ 23) * 2 ^ nat (m div 2 ^ 23 - 1))"

definition f32_val :: "f32 \<Rightarrow> int" where
  "f32_val x = (if f32_sign x then - mag_val (f32_mag x) else mag_val (f32_mag x))"

section \<open>Rounding\<close>

text \<open>The integer nearest to \<open>p / d\<close>, ties to even.\<close>

definition rne :: "int \<Rightarrow> int \<Rightarrow> int" where
  "rne p d =
     (let q = p div d; r = p mod d in
      if 2 * r < d then q else if d < 2 * r then q + 1 else if even q then q else q + 1)"

text \<open>The magnitude nearest to \<open>p / d\<close> units. The number of bits of the quotient fixes the
  exponent \<open>e\<close> of the last place; a significand that rounds up to \<open>2 ^ 24\<close> carries into the
  exponent field by the addition, and past the largest finite magnitude into \<open>inf_mag\<close>.\<close>

definition last_place :: "int \<Rightarrow> nat" where
  "last_place q = nat (bitlen q - 24)"

definition round_mag :: "int \<Rightarrow> int \<Rightarrow> int" where
  "round_mag p d =
     (let e = last_place (p div d) in min inf_mag (int e * 2 ^ 23 + rne p (d * 2 ^ e)))"

section \<open>Operations\<close>

definition f32_abs :: "f32 \<Rightarrow> f32" where
  "f32_abs x = f32_make False (f32_mag x)"

definition f32_add :: "f32 \<Rightarrow> f32 \<Rightarrow> f32" where
  "f32_add x y =
     (if is_nan x \<or> is_nan y then f32_nan
      else if is_inf x then (if is_inf y \<and> f32_sign x \<noteq> f32_sign y then f32_nan else x)
      else if is_inf y then y
      else (let v = f32_val x + f32_val y in
            if v = 0 then f32_make (f32_sign x \<and> f32_sign y) 0
            else f32_make (v < 0) (round_mag \<bar>v\<bar> 1)))"

definition f32_mul :: "f32 \<Rightarrow> f32 \<Rightarrow> f32" where
  "f32_mul x y =
     (let s = (f32_sign x \<noteq> f32_sign y) in
      if is_nan x \<or> is_nan y then f32_nan
      else if is_inf x \<or> is_inf y
        then (if f32_mag x = 0 \<or> f32_mag y = 0 then f32_nan else f32_make s inf_mag)
      else f32_make s (round_mag (\<bar>f32_val x\<bar> * \<bar>f32_val y\<bar>) (2 ^ 149)))"

definition f32_div :: "f32 \<Rightarrow> f32 \<Rightarrow> f32" where
  "f32_div x y =
     (let s = (f32_sign x \<noteq> f32_sign y) in
      if is_nan x \<or> is_nan y then f32_nan
      else if is_inf x then (if is_inf y then f32_nan else f32_make s inf_mag)
      else if is_inf y then f32_make s 0
      else if f32_mag y = 0 then (if f32_mag x = 0 then f32_nan else f32_make s inf_mag)
      else f32_make s (round_mag (\<bar>f32_val x\<bar> * 2 ^ 149) \<bar>f32_val y\<bar>))"

function isqrt :: "int \<Rightarrow> int" where
  "isqrt n =
     (if n \<le> 0 then 0
      else (let r = 2 * isqrt (n div 4) in if (r + 1) * (r + 1) \<le> n then r + 1 else r))"
  by pat_completeness auto
termination
  by (relation "measure nat") auto

declare isqrt.simps [simp del]

text \<open>The root of a positive value \<open>v\<close> is \<open>sqrt (v * 2 ^ 149)\<close> units; it is rounded on the
  integer root, comparing \<open>4 * x\<close> with the square of twice the midpoint.\<close>

definition round_sqrt_mag :: "int \<Rightarrow> int" where
  "round_sqrt_mag x =
     (let r = isqrt x; e = last_place r; q = r div 2 ^ e; mid = (2 * q + 1) * 2 ^ e in
      int e * 2 ^ 23 +
      (if 4 * x < mid * mid then q
       else if mid * mid < 4 * x then q + 1 else if even q then q else q + 1))"

definition f32_sqrt :: "f32 \<Rightarrow> f32" where
  "f32_sqrt x =
     (if is_nan x then f32_nan
      else if f32_mag x = 0 then x
      else if f32_sign x then f32_nan
      else if is_inf x then x
      else f32_make False (round_sqrt_mag (f32_val x * 2 ^ 149)))"

text \<open>\<open>n as f32\<close> for an unsigned integer.\<close>

definition f32_of_nat :: "nat \<Rightarrow> f32" where
  "f32_of_nat n = f32_make False (round_mag (int n * 2 ^ 149) 1)"

definition f32_lt :: "f32 \<Rightarrow> f32 \<Rightarrow> bool" where
  "f32_lt x y \<longleftrightarrow> \<not> is_nan x \<and> \<not> is_nan y \<and> f32_val x < f32_val y"

definition f32_le :: "f32 \<Rightarrow> f32 \<Rightarrow> bool" where
  "f32_le x y \<longleftrightarrow> \<not> is_nan x \<and> \<not> is_nan y \<and> f32_val x \<le> f32_val y"

definition f32_eq :: "f32 \<Rightarrow> f32 \<Rightarrow> bool" where
  "f32_eq x y \<longleftrightarrow> \<not> is_nan x \<and> \<not> is_nan y \<and> f32_val x = f32_val y"

text \<open>\<open>f32::max\<close> ignores a NaN operand.\<close>

definition f32_max :: "f32 \<Rightarrow> f32 \<Rightarrow> f32" where
  "f32_max x y = (if is_nan x then y else if is_nan y then x else if f32_lt x y then y else x)"

text \<open>\<open>iter.sum::<f32>()\<close> adds from the left, starting at zero. (The zero is negative in some
  releases of the standard library: that shows in the sign of a zero sum only, which none of the
  program's comparisons reads.)\<close>

definition f32_sum :: "f32 list \<Rightarrow> f32" where
  "f32_sum xs = foldl f32_add f32_zero xs"

text \<open>\<open>f32::total_cmp\<close> compares the patterns as sign and magnitude, every negative pattern below
  every positive one.\<close>

definition total_key :: "f32 \<Rightarrow> int" where
  "total_key x = (if f32_sign x then - f32_mag x - 1 else f32_mag x)"

section \<open>Fields\<close>

lemma div_mod_once:
  assumes "0 < k" "k \<le> m" "m < 2 * (k :: int)"
  shows "m div k = 1" "m mod k = m - k"
  using assms by (auto intro: int_div_pos_eq [where r = "m - k"] int_mod_pos_eq [where q = 1])

lemma mag_range [f32_simps]: "0 \<le> f32_mag x" "f32_mag x < 2 ^ 31"
  by (simp_all add: f32_mag_def)

lemma bits_split: "uint (f32_bits x) = (if f32_sign x then 2 ^ 31 else 0) + f32_mag x"
proof -
  define u where "u = uint (f32_bits x)"
  have u: "u < 2 ^ 32" "0 \<le> u"
    using uint_bounded [of "f32_bits x"] by (simp_all add: u_def)
  show ?thesis
  proof (cases "2 ^ 31 \<le> u")
    case True
    then have "u mod 2 ^ 31 = u - 2 ^ 31"
      using u by (intro div_mod_once) simp_all
    with True show ?thesis by (simp add: f32_sign_def f32_mag_def flip: u_def)
  next
    case False
    then have "u mod 2 ^ 31 = u"
      using u by (simp add: mod_pos_pos_trivial)
    with False show ?thesis by (simp add: f32_sign_def f32_mag_def flip: u_def)
  qed
qed

lemma f32_eqI: "f32_sign x = f32_sign y \<Longrightarrow> f32_mag x = f32_mag y \<Longrightarrow> x = y"
  using bits_split [of x] bits_split [of y] by (cases x; cases y) (simp add: word_uint_eqI)

lemma uint_make:
  assumes "0 \<le> m" "m < 2 ^ 31"
  shows "uint (f32_bits (f32_make s m)) = (if s then 2 ^ 31 else 0) + m"
proof -
  define k where "k = (if s then 2 ^ 31 else 0) + m"
  have "k mod 2 ^ 32 = k" using assms by (simp add: k_def mod_pos_pos_trivial)
  then show ?thesis
    unfolding f32_make_def f32.sel k_def [symmetric] by (simp add: uint_word_of_int)
qed

lemma f32_sign_make: "0 \<le> m \<Longrightarrow> m < 2 ^ 31 \<Longrightarrow> f32_sign (f32_make s m) = s"
  by (simp add: f32_sign_def uint_make)

lemma f32_mag_make: "0 \<le> m \<Longrightarrow> m < 2 ^ 31 \<Longrightarrow> f32_mag (f32_make s m) = m"
  by (simp add: f32_mag_def uint_make mod_pos_pos_trivial)

lemma f32_make_sel [f32_simps]:
  assumes "0 \<le> m" "m \<le> inf_mag"
  shows "f32_sign (f32_make s m) = s" "f32_mag (f32_make s m) = m"
  using assms by (simp_all add: f32_sign_make f32_mag_make inf_mag_def)

lemma f32_make_fields [simp]: "f32_make (f32_sign x) (f32_mag x) = x"
  using mag_range [of x] by (intro f32_eqI) (simp_all only: f32_sign_make f32_mag_make)

lemma not_nan_iff: "\<not> is_nan x \<longleftrightarrow> is_finite x \<or> is_inf x"
  by (auto simp: is_nan_def is_inf_def is_finite_def)

section \<open>The total order\<close>

lemma total_key_inj: "total_key x = total_key y \<Longrightarrow> x = y"
  using mag_range [of x] mag_range [of y]
  by (intro f32_eqI) (auto simp: total_key_def split: if_splits)

instantiation f32 :: linorder
begin

definition less_eq_f32 :: "f32 \<Rightarrow> f32 \<Rightarrow> bool" where
  "less_eq_f32 x y \<longleftrightarrow> total_key x \<le> total_key y"

definition less_f32 :: "f32 \<Rightarrow> f32 \<Rightarrow> bool" where
  "less_f32 x y \<longleftrightarrow> total_key x < total_key y"

instance
  by standard (auto simp: less_eq_f32_def less_f32_def intro: total_key_inj)

end

section \<open>Values of magnitudes\<close>

lemma mag_val_small: "m < 2 ^ 24 \<Longrightarrow> 0 \<le> m \<Longrightarrow> mag_val m = m"
proof -
  assume m: "m < 2 ^ 24" "0 \<le> m"
  show ?thesis
  proof (cases "m < 2 ^ 23")
    case True
    then show ?thesis by (simp add: mag_val_def)
  next
    case False
    have "m div 2 ^ 23 = 1" "m mod 2 ^ 23 = m - 2 ^ 23"
      using False m by (intro div_mod_once; simp)+
    with False show ?thesis by (simp add: mag_val_def)
  qed
qed

lemma mag_val_normal:
  assumes "2 ^ 23 \<le> k" "k \<le> 2 ^ 24"
  shows "mag_val (int e * 2 ^ 23 + k) = k * 2 ^ e"
proof (cases "k = 2 ^ 24")
  case True
  have "mag_val (int e * 2 ^ 23 + k) = mag_val ((int e + 2) * 2 ^ 23)"
    using True by (simp add: algebra_simps)
  also have "\<dots> = 2 ^ 23 * 2 ^ nat (int e + 1)"
    by (simp add: mag_val_def algebra_simps)
  also have "nat (int e + 1) = Suc e" by simp
  finally show ?thesis using True by simp
next
  case False
  define j where "j = k - 2 ^ 23"
  have j: "0 \<le> j" "j < 2 ^ 23" using assms False by (simp_all add: j_def)
  have m: "int e * 2 ^ 23 + k = j + (int e + 1) * 2 ^ 23"
    by (simp add: j_def algebra_simps)
  have "(j + (int e + 1) * 2 ^ 23) div 2 ^ 23 = int e + 1"
    "(j + (int e + 1) * 2 ^ 23) mod 2 ^ 23 = j"
    using j by (simp_all only: mod_mult_self1 div_mult_self1 div_pos_pos_trivial
        mod_pos_pos_trivial)
  moreover have "\<not> j + (int e + 1) * 2 ^ 23 < 2 ^ 23" using j by (simp add: algebra_simps)
  ultimately show ?thesis
    unfolding m by (simp add: mag_val_def j_def)
qed

section \<open>Rounding is monotone and exact on values\<close>

lemma rne_le_iff:
  assumes "0 < d"
  shows "rne p d \<le> n \<longleftrightarrow> 2 * p < (2 * n + 1) * d \<or> 2 * p = (2 * n + 1) * d \<and> even n"
proof -
  define q r where "q = p div d" and "r = p mod d"
  have p: "p = q * d + r" and r: "0 \<le> r" "r < d"
    using assms by (simp_all add: q_def r_def)
  have rne: "rne p d = (if 2 * r < d then q else if d < 2 * r then q + 1
      else if even q then q else q + 1)"
    by (simp add: rne_def q_def r_def Let_def)
  consider "n < q" | "n = q" | "q < n" by linarith
  then show ?thesis
  proof cases
    case 1
    then have "(2 * n + 1) * d \<le> (2 * q - 1) * d"
      using assms by (intro mult_right_mono) auto
    then show ?thesis using 1 p r assms rne by (auto simp: algebra_simps)
  next
    case 2
    then show ?thesis using p r assms rne by (auto simp: algebra_simps)
  next
    case 3
    then have "(2 * q + 3) * d \<le> (2 * n + 1) * d"
      using assms by (intro mult_right_mono) auto
    then have "2 * p < (2 * n + 1) * d"
      using p r by (simp add: algebra_simps)
    then show ?thesis using 3 rne by auto
  qed
qed

lemma rne_mono:
  assumes "0 < d" "0 < d'" "p * d' \<le> p' * d"
  shows "rne p d \<le> rne p' d'"
proof -
  define n where "n = rne p' d'"
  have n: "2 * p' < (2 * n + 1) * d' \<or> 2 * p' = (2 * n + 1) * d' \<and> even n"
    using rne_le_iff [OF assms(2), of p' n] by (simp add: n_def)
  have le: "(2 * p) * d' \<le> (2 * p') * d" using assms(3) by simp
  show ?thesis
  proof (cases "2 * p' < (2 * n + 1) * d'")
    case True
    then have "(2 * p') * d < ((2 * n + 1) * d) * d'"
      using mult_strict_right_mono [OF True assms(1)] by (simp add: algebra_simps)
    with le have "(2 * p) * d' < ((2 * n + 1) * d) * d'" by linarith
    then have "2 * p < (2 * n + 1) * d" using assms(2) by (simp add: mult_less_cancel_right)
    then show ?thesis using rne_le_iff [OF assms(1), of p n] by (simp add: n_def)
  next
    case False
    with n have eq: "2 * p' = (2 * n + 1) * d'" "even n" by auto
    have "(2 * p') * d = ((2 * n + 1) * d) * d'" unfolding eq(1) by (simp add: algebra_simps)
    with le have "(2 * p) * d' \<le> ((2 * n + 1) * d) * d'" by simp
    then have "2 * p \<le> (2 * n + 1) * d" using assms(2) by (simp add: mult_le_cancel_right)
    then show ?thesis using rne_le_iff [OF assms(1), of p n] eq by (auto simp: n_def)
  qed
qed

lemma rne_exact [simp]: "0 < d \<Longrightarrow> rne (k * d) d = k"
  by (simp add: rne_def)

lemma rne_one [simp]: "rne k 1 = k"
  by (simp add: rne_def)

lemma div_cross_mono:
  assumes "0 < d" "0 < d'" "p * d' \<le> p' * (d :: int)"
  shows "p div d \<le> p' div d'"
proof -
  have "p div d * d \<le> p"
    using div_mult_mod_eq [of p d] pos_mod_sign [OF assms(1), of p] by linarith
  then have "p div d * d * d' \<le> p * d'"
    using assms by (intro mult_right_mono) simp_all
  with assms(3) have "(p div d * d') * d \<le> p' * d" by (simp add: algebra_simps)
  then have "p div d * d' \<le> p'" using assms(1) by (simp add: mult_le_cancel_right)
  then have "p div d * d' div d' \<le> p' div d'" using assms(2) by (intro zdiv_mono1)
  then show ?thesis using assms(2) by simp
qed

lemma last_place_upper: "q < 2 ^ (24 + last_place q)"
proof -
  have "bitlen q \<le> int (24 + last_place q)" by (simp add: last_place_def)
  then have "q < 2 ^ nat (int (24 + last_place q))" by (simp add: bitlen_le_iff_power del: of_nat_add)
  then show ?thesis by (simp only: nat_int)
qed

lemma last_place_leI: "q < 2 ^ (24 + e) \<Longrightarrow> last_place q \<le> e"
proof -
  assume "q < 2 ^ (24 + e)"
  then have "bitlen q \<le> int (24 + e)"
    by (subst bitlen_le_iff_power) (simp del: of_nat_add)
  then show ?thesis by (simp add: last_place_def)
qed

lemma last_place_geI: "0 < e \<Longrightarrow> 2 ^ (23 + e) \<le> q \<Longrightarrow> e \<le> last_place q"
proof -
  assume "0 < e" "2 ^ (23 + e) \<le> q"
  then have "int (24 + e) \<le> bitlen q"
    by (subst bitlen_ge_iff_power) (simp del: of_nat_add)
  then show ?thesis by (simp add: last_place_def)
qed

lemma last_place_lower: "0 < last_place q \<Longrightarrow> 2 ^ (23 + last_place q) \<le> q"
proof (rule ccontr)
  assume pos: "0 < last_place q" and "\<not> 2 ^ (23 + last_place q) \<le> q"
  then have "q < 2 ^ (24 + (last_place q - 1))"
    by (cases "last_place q") auto
  then show False using last_place_leI [of q "last_place q - 1"] pos by simp
qed

lemma last_place_mono: "q \<le> q' \<Longrightarrow> last_place q \<le> last_place q'"
  using last_place_upper [of q'] by (intro last_place_leI) simp

text \<open>In the binade the exponent selects, the significand is at most \<open>2 ^ 24\<close>, and at least
  \<open>2 ^ 23\<close> unless the value is subnormal.\<close>

lemma significand_le:
  assumes "0 < d" "e = last_place (p div d)"
  shows "rne p (d * 2 ^ e) \<le> 2 ^ 24"
proof -
  have "p div d < 2 ^ (24 + e)" using last_place_upper assms(2) by simp
  then have "p < 2 ^ (24 + e) * d"
    using assms(1) by (metis div_mult_mod_eq add_strict_left_mono pos_mod_bound linorder_not_less
        zdiv_mono1 nonzero_mult_div_cancel_right less_irrefl)
  then have "p * 1 \<le> 2 ^ 24 * (d * 2 ^ e)" by (simp add: power_add ac_simps)
  then have "rne p (d * 2 ^ e) \<le> rne (2 ^ 24) 1"
    using assms(1) by (intro rne_mono) simp_all
  then show ?thesis by simp
qed

lemma significand_ge:
  assumes "0 < d" "e = last_place (p div d)" "0 < e"
  shows "2 ^ 23 \<le> rne p (d * 2 ^ e)"
proof -
  have "2 ^ (23 + e) \<le> p div d" using last_place_lower assms by simp
  then have "2 ^ (23 + e) * d \<le> p div d * d"
    using assms(1) by (intro mult_right_mono) simp_all
  also have "\<dots> \<le> p"
    using div_mult_mod_eq [of p d] pos_mod_sign [OF assms(1), of p] by linarith
  finally have "2 ^ 23 * (d * 2 ^ e) \<le> p * 1" by (simp add: power_add ac_simps)
  then have "rne (2 ^ 23) 1 \<le> rne p (d * 2 ^ e)"
    using assms(1) by (intro rne_mono) simp_all
  then show ?thesis by simp
qed

lemma round_mag_mono:
  assumes "0 < d" "0 < d'" "p * d' \<le> p' * d"
  shows "round_mag p d \<le> round_mag p' d'"
proof -
  define e e' where "e = last_place (p div d)" and "e' = last_place (p' div d')"
  have le: "e \<le> e'"
    unfolding e_def e'_def by (intro last_place_mono div_cross_mono assms)
  have "int e * 2 ^ 23 + rne p (d * 2 ^ e) \<le> int e' * 2 ^ 23 + rne p' (d' * 2 ^ e')"
  proof (cases "e = e'")
    case True
    have "p * (d' * 2 ^ e) \<le> p' * (d * 2 ^ e)"
      using mult_right_mono [OF assms(3), of "2 ^ e"] by (simp add: ac_simps)
    then have "rne p (d * 2 ^ e) \<le> rne p' (d' * 2 ^ e)"
      using assms by (intro rne_mono) simp_all
    with True show ?thesis by simp
  next
    case False
    with le have "int e + 1 \<le> int e'" "0 < e'" by simp_all
    then have "(int e + 1) * 2 ^ 23 \<le> int e' * 2 ^ 23" by (intro mult_right_mono) simp_all
    moreover have "rne p (d * 2 ^ e) \<le> 2 ^ 24"
      using significand_le [OF assms(1) e_def] .
    moreover have "2 ^ 23 \<le> rne p' (d' * 2 ^ e')"
      using significand_ge [OF assms(2) e'_def \<open>0 < e'\<close>] .
    ultimately show ?thesis by simp
  qed
  then show ?thesis
    by (simp add: round_mag_def Let_def flip: e_def e'_def)
qed

lemma round_mag_le_inf [f32_simps]: "round_mag p d \<le> inf_mag"
  by (simp add: round_mag_def Let_def)

lemma round_mag_nonneg [f32_simps]: "0 \<le> p \<Longrightarrow> 0 < d \<Longrightarrow> 0 \<le> round_mag p d"
proof -
  assume "0 \<le> p" "0 < d"
  then have "rne 0 1 \<le> rne p (d * 2 ^ last_place (p div d))"
    by (intro rne_mono) simp_all
  then show ?thesis by (simp add: round_mag_def Let_def inf_mag_def)
qed

lemma mag_split:
  assumes "2 ^ 23 \<le> m"
  obtains e k where "m = int e * 2 ^ 23 + k" "2 ^ 23 \<le> k" "k < 2 ^ 24"
proof
  define e where "e = nat (m div 2 ^ 23 - 1)"
  define k where "k = 2 ^ 23 + m mod 2 ^ 23"
  have "2 ^ 23 div 2 ^ 23 \<le> m div 2 ^ 23" using assms by (intro zdiv_mono1) simp_all
  then have "int e = m div 2 ^ 23 - 1" by (simp add: e_def)
  then have "(int e + 1) * 2 ^ 23 + m mod 2 ^ 23 = m"
    using div_mult_mod_eq [of m "2 ^ 23"] by simp
  then show "m = int e * 2 ^ 23 + k"
    by (simp add: k_def algebra_simps)
  show "2 ^ 23 \<le> k" by (simp add: k_def)
  show "k < 2 ^ 24" using pos_mod_bound [of "2 ^ 23" m] by (simp add: k_def)
qed

lemma round_mag_exact1:
  assumes "0 \<le> m" "m \<le> inf_mag"
  shows "round_mag (mag_val m) 1 = m"
proof (cases "m < 2 ^ 24")
  case True
  then have "last_place m = 0"
    using last_place_leI [of m 0] by simp
  with True assms show ?thesis
    by (simp add: mag_val_small round_mag_def Let_def)
next
  case False
  then have "2 ^ 23 \<le> m" by simp
  then obtain e k where m: "m = int e * 2 ^ 23 + k" "2 ^ 23 \<le> k" "k < 2 ^ 24"
    by (rule mag_split)
  have "0 < e"
    using False m by (cases e) auto
  have val: "mag_val m = k * 2 ^ e"
    unfolding m(1) by (rule mag_val_normal) (use m in simp_all)
  have "k * 2 ^ e < 2 ^ 24 * 2 ^ e" "2 ^ 23 * 2 ^ e \<le> k * 2 ^ e"
    using m by (simp_all only: mult_less_cancel_right_pos mult_le_cancel_right_pos zero_less_power
        zero_less_numeral)
  then have "last_place (k * 2 ^ e) = e"
    using \<open>0 < e\<close> by (intro antisym last_place_leI last_place_geI) (simp_all add: power_add)
  then show ?thesis
    using m assms val by (simp add: round_mag_def Let_def)
qed

lemma round_mag_exact [simp]:
  assumes "0 \<le> m" "m \<le> inf_mag" "0 < d"
  shows "round_mag (mag_val m * d) d = m"
proof -
  have "round_mag (mag_val m * d) d = round_mag (mag_val m) 1"
    using assms by (intro antisym round_mag_mono) simp_all
  with assms show ?thesis by (simp add: round_mag_exact1)
qed

text \<open>Rounding respects every representable bound.\<close>

lemma round_mag_leI:
  assumes "0 < d" "0 \<le> m" "m \<le> inf_mag" "p \<le> mag_val m * d"
  shows "round_mag p d \<le> m"
  using round_mag_mono [of d 1 p "mag_val m"] assms by (simp add: round_mag_exact1)

lemma round_mag_geI:
  assumes "0 < d" "0 \<le> m" "m \<le> inf_mag" "mag_val m * d \<le> p"
  shows "m \<le> round_mag p d"
  using round_mag_mono [of 1 d "mag_val m" p] assms by (simp add: round_mag_exact1)

section \<open>Rounding is to a nearest value\<close>

lemma rne_nearest:
  assumes "0 < d"
  shows "\<bar>rne p d * d - p\<bar> \<le> \<bar>k * d - p\<bar>"
proof -
  define q r where "q = p div d" and "r = p mod d"
  have p: "p = q * d + r" and r: "0 \<le> r" "r < d"
    using assms by (simp_all add: q_def r_def)
  have near: "\<bar>rne p d * d - p\<bar> \<le> r" "\<bar>rne p d * d - p\<bar> \<le> d - r"
    using r unfolding rne_def Let_def q_def [symmetric] r_def [symmetric]
    by (auto simp: p algebra_simps)
  consider "k \<le> q" | "q + 1 \<le> k" by linarith
  then show ?thesis
  proof cases
    case 1
    then have "k * d \<le> q * d" using assms by (intro mult_right_mono) simp_all
    then show ?thesis using near(1) p by linarith
  next
    case 2
    then have "(q + 1) * d \<le> k * d" using assms by (intro mult_right_mono) simp_all
    then show ?thesis using near(2) p r by (simp add: algebra_simps)
  qed
qed

lemma mag_val_grid:
  assumes "0 \<le> m"
  shows "2 ^ e dvd mag_val m \<or> mag_val m < 2 ^ (23 + e)"
proof (cases "m < 2 ^ 23")
  case True
  then have "mag_val m < 2 ^ 23" using assms by (simp add: mag_val_def)
  also have "(2 :: int) ^ 23 \<le> 2 ^ (23 + e)" by (intro power_increasing) simp_all
  finally show ?thesis by simp
next
  case False
  then have "2 ^ 23 \<le> m" by simp
  then obtain f k where m: "m = int f * 2 ^ 23 + k" "2 ^ 23 \<le> k" "k < 2 ^ 24"
    by (rule mag_split)
  have val: "mag_val m = k * 2 ^ f"
    unfolding m(1) by (rule mag_val_normal) (use m in simp_all)
  show ?thesis
  proof (cases "e \<le> f")
    case True
    then show ?thesis by (simp add: val le_imp_power_dvd)
  next
    case False
    then have "(2 :: int) ^ 24 * 2 ^ f \<le> 2 ^ (23 + e)"
      by (subst power_add [symmetric], intro power_increasing) simp_all
    moreover have "k * 2 ^ f < 2 ^ 24 * 2 ^ f"
      using m(3) by (intro mult_strict_right_mono) simp_all
    ultimately have "k * 2 ^ f < 2 ^ (23 + e)" by linarith
    then show ?thesis by (simp add: val)
  qed
qed

lemma significand_val:
  assumes "0 \<le> k" "k \<le> 2 ^ 24" "0 < e \<Longrightarrow> 2 ^ 23 \<le> k"
  shows "mag_val (int e * 2 ^ 23 + k) = k * 2 ^ e"
proof (cases "2 ^ 23 \<le> k")
  case True
  then show ?thesis using assms(2) by (intro mag_val_normal)
next
  case False
  with assms(3) have "e = 0" by blast
  with False assms(1) show ?thesis by (simp add: mag_val_small)
qed

lemma round_mag_nearest:
  assumes d: "0 < d" and p: "0 \<le> p" and fin: "round_mag p d < inf_mag" and n: "0 \<le> n"
  shows "\<bar>mag_val (round_mag p d) * d - p\<bar> \<le> \<bar>mag_val n * d - p\<bar>"
proof -
  define e where "e = last_place (p div d)"
  define k where "k = rne p (d * 2 ^ e)"
  have r: "round_mag p d = int e * 2 ^ 23 + k"
    using fin by (simp add: round_mag_def Let_def e_def k_def min_def split: if_splits)
  have hi: "k \<le> 2 ^ 24" unfolding k_def by (rule significand_le [OF d e_def])
  have lo: "0 \<le> k"
    using rne_mono [of 1 "d * 2 ^ e" 0 p] d p by (simp add: k_def)
  have "2 ^ 23 \<le> k" if "0 < e" using that unfolding k_def by (rule significand_ge [OF d e_def])
  then have val: "mag_val (round_mag p d) = k * 2 ^ e" unfolding r using lo hi by (intro significand_val)
  have near: "\<bar>k * 2 ^ e * d - p\<bar> \<le> \<bar>j * 2 ^ e * d - p\<bar>" for j
    using rne_nearest [of "d * 2 ^ e" p j] d by (simp add: k_def ac_simps)
  consider "2 ^ e dvd mag_val n" | "mag_val n < 2 ^ (23 + e)" "0 < e"
    using mag_val_grid [OF n, of e] by (cases "e = 0") auto
  then show ?thesis
  proof cases
    case 1
    then obtain j where "mag_val n = j * 2 ^ e" by (auto elim!: dvdE simp: ac_simps)
    then show ?thesis using near [of j] val by simp
  next
    case 2
    have "2 ^ (23 + e) \<le> p div d" using last_place_lower 2(2) by (simp add: e_def)
    then have "2 ^ (23 + e) * d \<le> p div d * d" using d by (intro mult_right_mono) simp_all
    also have "\<dots> \<le> p"
      using div_mult_mod_eq [of p d] pos_mod_sign [OF d, of p] by linarith
    finally have "2 ^ 23 * 2 ^ e * d \<le> p" by (simp add: power_add)
    moreover have "mag_val n * d \<le> 2 ^ 23 * 2 ^ e * d"
      using 2(1) d by (intro mult_right_mono) (simp_all add: power_add)
    ultimately have "\<bar>2 ^ 23 * 2 ^ e * d - p\<bar> \<le> \<bar>mag_val n * d - p\<bar>" by linarith
    then show ?thesis using near [of "2 ^ 23"] unfolding val by (rule order_trans [rotated])
  qed
qed

section \<open>Non-negative numbers\<close>

text \<open>The values the scores live in: zero, positive finite values and positive infinity. On them
  the total order is the order of the values, and addition is monotone.\<close>

definition pos_num :: "f32 \<Rightarrow> bool" where
  "pos_num x \<longleftrightarrow> \<not> f32_sign x \<and> \<not> is_nan x"

lemma mag_val_nonneg: "0 \<le> m \<Longrightarrow> 0 \<le> mag_val m"
  by (simp add: mag_val_def)

lemma mag_val_le_iff:
  assumes "0 \<le> m" "m \<le> inf_mag" "0 \<le> n" "n \<le> inf_mag"
  shows "mag_val m \<le> mag_val n \<longleftrightarrow> m \<le> n"
proof
  assume "mag_val m \<le> mag_val n"
  then have "round_mag (mag_val m) 1 \<le> round_mag (mag_val n) 1"
    by (intro round_mag_mono) simp_all
  with assms show "m \<le> n" by (simp add: round_mag_exact1)
next
  assume le: "m \<le> n"
  show "mag_val m \<le> mag_val n"
  proof (rule ccontr)
    assume less: "\<not> mag_val m \<le> mag_val n"
    then have "round_mag (mag_val n) 1 \<le> round_mag (mag_val m) 1"
      by (intro round_mag_mono) simp_all
    with assms le have "m = n" by (simp add: round_mag_exact1)
    with less show False by simp
  qed
qed

lemma pos_num_mag [f32_simps]: "pos_num x \<Longrightarrow> f32_mag x \<le> inf_mag"
  by (simp add: pos_num_def is_nan_def)

lemma pos_num_val [f32_simps]: "pos_num x \<Longrightarrow> f32_val x = mag_val (f32_mag x)"
  by (simp add: pos_num_def f32_val_def)

lemma pos_num_le_mag: "pos_num x \<Longrightarrow> pos_num y \<Longrightarrow> x \<le> y \<longleftrightarrow> f32_mag x \<le> f32_mag y"
  by (simp add: pos_num_def less_eq_f32_def total_key_def)

lemma pos_num_le_val: "pos_num x \<Longrightarrow> pos_num y \<Longrightarrow> x \<le> y \<longleftrightarrow> f32_val x \<le> f32_val y"
  by (simp add: pos_num_le_mag f32_simps mag_val_le_iff)

lemma pos_num_make [f32_simps]: "0 \<le> m \<Longrightarrow> m \<le> inf_mag \<Longrightarrow> pos_num (f32_make False m)"
  by (simp add: pos_num_def is_nan_def f32_simps)

lemma pos_num_make_mag: "pos_num x \<Longrightarrow> f32_make False (f32_mag x) = x"
  using f32_make_fields [of x] by (simp add: pos_num_def)

lemma pos_num_round: "0 \<le> p \<Longrightarrow> 0 < d \<Longrightarrow> pos_num (f32_make False (round_mag p d))"
  by (simp add: f32_simps)

lemma pos_num_round_mono:
  assumes "0 \<le> p" "0 \<le> p'" "0 < d" "0 < d'" "p * d' \<le> p' * d"
  shows "f32_make False (round_mag p d) \<le> f32_make False (round_mag p' d')"
  using assms
  by (simp add: pos_num_le_mag pos_num_round f32_simps round_mag_mono)

lemma pos_num_val_nonneg: "pos_num x \<Longrightarrow> 0 \<le> f32_val x"
  by (simp add: f32_simps mag_val_nonneg)

lemma pos_num_round_val: "pos_num x \<Longrightarrow> x = f32_make False (round_mag (f32_val x) 1)"
  by (simp add: f32_simps round_mag_exact1 pos_num_make_mag)

lemma pos_num_le_inf: "pos_num x \<Longrightarrow> is_inf y \<Longrightarrow> pos_num y \<Longrightarrow> x \<le> y"
  by (simp add: pos_num_le_mag is_inf_def f32_simps)

lemma f32_add_pos:
  assumes "pos_num x" "pos_num y" "is_finite x" "is_finite y"
  shows "f32_add x y = f32_make False (round_mag (f32_val x + f32_val y) 1)"
proof -
  have "\<not> is_nan x" "\<not> is_nan y" "\<not> is_inf x" "\<not> is_inf y" "\<not> f32_sign x" "\<not> f32_sign y"
    using assms by (auto simp: pos_num_def is_finite_def is_inf_def)
  moreover have "0 \<le> f32_val x" "0 \<le> f32_val y"
    using assms by (simp_all add: pos_num_val_nonneg)
  moreover have "round_mag 0 1 = 0"
    using round_mag_exact1 [of 0] by (simp add: mag_val_def inf_mag_def)
  ultimately show ?thesis by (auto simp: f32_add_def Let_def)
qed

lemma f32_add_inf:
  assumes "pos_num x" "pos_num y" "is_inf x \<or> is_inf y"
  shows "f32_add x y = f32_make False inf_mag"
proof -
  have "is_inf z \<Longrightarrow> pos_num z \<Longrightarrow> z = f32_make False inf_mag" for z
    using pos_num_make_mag [of z] by (simp add: is_inf_def)
  with assms show ?thesis by (auto simp: f32_add_def pos_num_def)
qed

lemma pos_num_finite_or_inf: "pos_num x \<Longrightarrow> is_finite x \<or> is_inf x"
  by (auto simp: pos_num_def not_nan_iff)

lemma pos_num_add [f32_simps]:
  assumes "pos_num x" "pos_num y"
  shows "pos_num (f32_add x y)"
proof (cases "is_finite x \<and> is_finite y")
  case True
  with assms show ?thesis by (simp add: f32_add_pos pos_num_round pos_num_val_nonneg)
next
  case False
  with assms have "is_inf x \<or> is_inf y" using pos_num_finite_or_inf by blast
  with assms show ?thesis by (simp add: f32_add_inf f32_simps inf_mag_def)
qed

lemma f32_add_mono:
  assumes pos: "pos_num x" "pos_num y" "pos_num x'" "pos_num y'" and le: "x \<le> x'" "y \<le> y'"
  shows "f32_add x y \<le> f32_add x' y'"
proof (cases "is_finite x' \<and> is_finite y'")
  case True
  moreover from True pos le have "is_finite x" "is_finite y"
    by (simp_all add: pos_num_le_mag is_finite_def)
  moreover have "f32_val x + f32_val y \<le> f32_val x' + f32_val y'"
    using pos le by (intro add_mono) (simp_all add: pos_num_le_val)
  ultimately show ?thesis using pos
    by (simp add: f32_add_pos pos_num_round_mono pos_num_val_nonneg)
next
  case False
  with pos have "is_inf x' \<or> is_inf y'" using pos_num_finite_or_inf by blast
  with pos have "is_inf (f32_add x' y')"
    by (simp add: f32_add_inf is_inf_def f32_simps inf_mag_def)
  with pos show ?thesis by (intro pos_num_le_inf) (simp_all add: f32_simps)
qed

lemma pos_num_zero [simp]: "pos_num f32_zero"
  by (simp add: pos_num_def f32_zero_def f32_sign_def is_nan_def f32_mag_def inf_mag_def)

lemma f32_mag_zero [simp]: "f32_mag f32_zero = 0"
  by (simp add: f32_zero_def f32_mag_def)

lemma zero_le_pos: "pos_num x \<Longrightarrow> f32_zero \<le> x"
  by (simp add: pos_num_le_mag f32_simps)

lemma finite_zero [simp]: "is_finite f32_zero"
  by (simp add: is_finite_def f32_zero_def f32_mag_def inf_mag_def)

lemma f32_val_zero [simp]: "f32_val f32_zero = 0"
  by (simp add: f32_zero_def f32_val_def f32_mag_def mag_val_def)

lemma f32_add_zero_left: "pos_num x \<Longrightarrow> f32_add f32_zero x = x"
proof -
  assume pos: "pos_num x"
  consider "is_finite x" | "is_inf x" using pos_num_finite_or_inf [OF pos] by blast
  then show ?thesis
  proof cases
    case 1
    with pos show ?thesis by (simp add: f32_add_pos pos_num_round_val [OF pos, symmetric])
  next
    case 2
    with pos show ?thesis
      using pos_num_make_mag [OF pos] by (simp add: f32_add_inf is_inf_def)
  qed
qed

lemma f32_add_ge_left:
  assumes "pos_num x" "pos_num y"
  shows "x \<le> f32_add x y"
proof (cases "is_finite x \<and> is_finite y")
  case True
  have "x = f32_make False (round_mag (f32_val x) 1)" using assms(1) by (rule pos_num_round_val)
  also have "\<dots> \<le> f32_make False (round_mag (f32_val x + f32_val y) 1)"
    using assms by (intro pos_num_round_mono) (simp_all add: pos_num_val_nonneg)
  finally show ?thesis using True assms by (simp add: f32_add_pos)
next
  case False
  with assms have "is_inf x \<or> is_inf y" using pos_num_finite_or_inf by blast
  with assms have "is_inf (f32_add x y)"
    by (simp add: f32_add_inf is_inf_def f32_simps inf_mag_def)
  with assms show ?thesis by (intro pos_num_le_inf) (simp_all add: f32_simps)
qed

lemma f32_add_commute: "pos_num x \<Longrightarrow> pos_num y \<Longrightarrow> f32_add x y = f32_add y x"
  using pos_num_finite_or_inf [of x] pos_num_finite_or_inf [of y]
  by (auto simp: f32_add_pos f32_add_inf add.commute)

lemma pos_num_of_nat [f32_simps]: "pos_num (f32_of_nat n)"
  by (simp add: f32_of_nat_def pos_num_round)

lemma f32_of_nat_mono: "m \<le> n \<Longrightarrow> f32_of_nat m \<le> f32_of_nat n"
  by (simp add: f32_of_nat_def pos_num_round_mono)

lemma pos_num_one [simp]: "pos_num f32_one"
  by (simp add: pos_num_def f32_one_def f32_sign_def is_nan_def f32_mag_def inf_mag_def)

lemma f32_val_one: "f32_val f32_one = 2 ^ 149"
  by (simp add: f32_one_def f32_val_def f32_sign_def f32_mag_def mag_val_def)

lemma finite_one: "is_finite f32_one"
  by (simp add: f32_one_def is_finite_def f32_mag_def inf_mag_def)

text \<open>The reciprocal of a positive number, and its antitonicity.\<close>

lemma f32_div_pos:
  assumes "pos_num x" "is_finite x" "pos_num y" "is_finite y" "0 < f32_val y"
  shows "f32_div x y = f32_make False (round_mag (f32_val x * 2 ^ 149) (f32_val y))"
proof -
  have "f32_mag y \<noteq> 0" using assms by (auto simp: f32_simps mag_val_def)
  moreover have "\<bar>f32_val x\<bar> = f32_val x" using assms by (simp add: pos_num_val_nonneg)
  ultimately show ?thesis using assms
    by (simp add: f32_div_def Let_def pos_num_def is_finite_def is_inf_def)
qed

lemma pos_num_recip [f32_simps]:
  assumes "pos_num y"
  shows "pos_num (f32_div f32_one y)"
proof (cases "is_inf y")
  case True
  then show ?thesis
    using assms finite_one
    by (simp add: f32_div_def Let_def pos_num_def is_inf_def is_finite_def is_nan_def f32_simps
        inf_mag_def)
      (simp add: f32_one_def f32_sign_def f32_mag_def inf_mag_def)
next
  case False
  then have fin: "is_finite y" using assms pos_num_finite_or_inf by blast
  show ?thesis
  proof (cases "f32_mag y = 0")
    case True
    then show ?thesis using assms finite_one
      by (simp add: f32_div_def Let_def pos_num_def is_inf_def is_finite_def is_nan_def f32_simps
          inf_mag_def)
        (simp add: f32_one_def f32_sign_def f32_mag_def inf_mag_def f32_make_def is_nan_def)
  next
    case False
    then have "mag_val 0 < mag_val (f32_mag y)"
      using mag_val_le_iff [of "f32_mag y" 0] mag_range [of y] pos_num_mag [OF assms]
      by (simp add: inf_mag_def)
    then have "0 < f32_val y" using assms by (simp add: f32_simps mag_val_def)
    with assms fin show ?thesis
      by (simp add: f32_div_pos finite_one pos_num_round f32_val_one)
  qed
qed

lemma f32_recip_antimono:
  assumes "pos_num x" "pos_num y" "0 < f32_val x" "x \<le> y"
  shows "f32_div f32_one y \<le> f32_div f32_one x"
proof (cases "is_finite y")
  case True
  then have "f32_val x \<le> f32_val y" "is_finite x"
    using assms by (simp_all add: pos_num_le_mag is_finite_def flip: pos_num_le_val)
  then show ?thesis using assms True
    by (simp add: f32_div_pos finite_one f32_val_one pos_num_round_mono mult_left_mono)
next
  case False
  then have "is_inf y" using assms pos_num_finite_or_inf by blast
  then have "f32_mag (f32_div f32_one y) = 0"
    using assms finite_one
    by (simp add: f32_div_def Let_def pos_num_def is_inf_def is_finite_def is_nan_def f32_simps
        inf_mag_def f32_sign_make f32_mag_make)
  then show ?thesis using assms by (simp add: pos_num_le_mag f32_simps mag_range)
qed

lemma f32_add_zero_right: "pos_num x \<Longrightarrow> f32_add x f32_zero = x"
  by (simp add: f32_add_commute f32_add_zero_left)

lemma f32_val_of_nat_pos: "0 < f32_val (f32_of_nat (Suc n))"
proof -
  have "f32_one \<le> f32_of_nat (Suc n)"
  proof -
    have "f32_one = f32_make False (round_mag (2 ^ 149) 1)"
      using pos_num_round_val [OF pos_num_one] by (simp add: f32_val_one)
    also have "\<dots> \<le> f32_of_nat (Suc n)"
      unfolding f32_of_nat_def by (intro pos_num_round_mono) simp_all
    finally show ?thesis .
  qed
  then have "f32_val f32_one \<le> f32_val (f32_of_nat (Suc n))"
    by (simp add: pos_num_le_val f32_simps)
  then show ?thesis by (simp add: f32_val_one)
qed

lemma f32_lt_trans: "f32_lt x y \<Longrightarrow> f32_lt y z \<Longrightarrow> f32_lt x z"
  by (auto simp: f32_lt_def)

lemma f32_lt_irrefl [simp]: "\<not> f32_lt x x"
  by (simp add: f32_lt_def)

lemma f32_le_not_lt: "f32_le x y \<Longrightarrow> \<not> f32_lt z y \<Longrightarrow> \<not> is_nan z \<Longrightarrow> f32_le x z"
  by (auto simp: f32_lt_def f32_le_def)

end
