(* ===== verification/Types.thy ===== *)
theory Types
  imports Rust_Str F32
begin

text \<open>
  The data every layer shares: the records of \<open>src/common/types.rs\<close>, the errors the program
  raises with the text each is displayed with, and the configuration read from environment
  variables (\<open>std::env::var(..).ok()\<close> is a function from names to optional values).
\<close>

section \<open>Records of common/types.rs\<close>

record kna1_row =
  kunnr :: "string option"
  name1 :: "string option"
  ort01 :: "string option"
  land1 :: "string option"

record router_decision =
  route :: string

record sql_response =
  sql_query :: string

record semantic_response =
  answer_found :: bool
  answer :: string
  exact_quote :: string
  source_chunk_id :: string

record parsed_question =
  intent :: string
  filters :: "string list"

record degraded_chunk =
  chunk_id :: string
  content :: string

record degraded_response =
  degraded :: bool
  message :: string
  retrieved_chunks :: "degraded_chunk list"

section \<open>Errors\<close>

text \<open>One constructor per place that raises; \<open>External\<close> carries the message of an error a crate
  returned and \<open>?\<close> passed on, \<open>Panic\<close> an unwinding panic.\<close>

datatype err =
    External string
  | ParseSqlFailed string
  | NoStatements
  | MultipleStatements
  | NotASelect
  | ScorerMismatch nat nat
  | DimensionOverflow
  | LengthMismatch nat nat
  | BatchTooLarge nat nat
  | BadHiddenSize
  | NoEmbedding
  | BadJson string string
  | UnknownChunk string
  | Hallucination string
  | LlmUnreachable string string
  | SqlLlmOffline err
  | BadBatchSize nat nat
  | FileLoad string
  | EmptyQueryArg
  | NoQueryProvided
  | StdinRead string
  | Panic string

type_synonym 'a result = "err + 'a"

fun display :: "err \<Rightarrow> string" where
  "display (External m) = m"
| "display (ParseSqlFailed m) = ''Failed to parse SQL: '' @ m"
| "display NoStatements = ''No SQL statements found.''"
| "display MultipleStatements =
     ''SECURITY VIOLATION: Multiple SQL statements detected. Only a single query is allowed.''"
| "display NotASelect =
     ''SECURITY VIOLATION: Only pure SELECT queries are permitted in automated systems.''"
| "display (ScorerMismatch n m) =
     ''Scorer returned '' @ show_nat n @ '' scores for '' @ show_nat m @ '' candidates''"
| "display DimensionOverflow = ''Dimension overflow''"
| "display (LengthMismatch n m) =
     ''Length mismatch: expected '' @ show_nat n @ '', got '' @ show_nat m"
| "display (BatchTooLarge n m) =
     ''Embedding batch size '' @ show_nat n @ '' exceeds maximum allowed of '' @ show_nat m"
| "display BadHiddenSize = ''Invalid model config: hidden_size cannot be 0''"
| "display NoEmbedding = ''Failed to generate embedding''"
| "display (BadJson e raw) = ''Failed to parse JSON: '' @ e @ ''. Raw text: '' @ raw"
| "display (UnknownChunk i) = ''SECURITY VIOLATION: LLM cited a non-existent chunk ID: '' @ i"
| "display (Hallucination q) =
     ''SECURITY VIOLATION: Hallucination detected. The exact quote does not exist in the source document. Quote: '' @ [quote] @ q @ [quote]"
| "display (LlmUnreachable url e) =
     ''Failed to reach LLM at '' @ url @ '' after retry: '' @ e"
| "display (SqlLlmOffline e) =
     ''Cannot execute AI SQL query: Ollama is offline or timed out: '' @ display e"
| "display (BadBatchSize m b) =
     ''--batch-size must be between 1 and '' @ show_nat m @ '' (received '' @ show_nat b @ '')''"
| "display (FileLoad e) = ''File load went wrong. Error: '' @ e"
| "display EmptyQueryArg = ''Provided query is empty.''"
| "display NoQueryProvided =
     ''No query provided. Pass a query argument or stream via STDIN (e.g. echo '' @ [quote] @
     ''...'' @ [quote] @ '' | bridge ask).''"
| "display (StdinRead e) = ''Failed reading from STDIN: '' @ e"
| "display (Panic m) = m"

section \<open>Configuration\<close>

type_synonym env = "string \<Rightarrow> string option"

definition env_usize :: "env \<Rightarrow> string \<Rightarrow> nat \<Rightarrow> nat" where
  "env_usize env name dflt =
     (case env name of
        None \<Rightarrow> dflt
      | Some v \<Rightarrow> (case parse_usize v of None \<Rightarrow> dflt | Some n \<Rightarrow> n))"

definition env_string :: "env \<Rightarrow> string \<Rightarrow> string \<Rightarrow> string" where
  "env_string env name dflt = (case env name of None \<Rightarrow> dflt | Some v \<Rightarrow> v)"

text \<open>\<open>str::parse::<f32>()\<close>: an optional sign, then \<open>inf\<close>, \<open>infinity\<close> or \<open>nan\<close> in any case, or
  decimal digits with an optional point and exponent, rounded once to the nearest value.\<close>

definition is_digit :: "char \<Rightarrow> bool" where
  "is_digit c \<longleftrightarrow> digit_value c \<noteq> None"

definition digits_nat :: "string \<Rightarrow> nat" where
  "digits_nat ds = (case parse_digits 0 ds of None \<Rightarrow> 0 | Some n \<Rightarrow> n)"

fun parse_sign :: "string \<Rightarrow> bool \<times> string" where
  "parse_sign [] = (False, [])"
| "parse_sign (c # cs) =
     (if c = CHR ''-'' then (True, cs) else if c = CHR ''+'' then (False, cs) else (False, c # cs))"

definition parse_exponent :: "string \<Rightarrow> int option" where
  "parse_exponent s =
     (case s of
        [] \<Rightarrow> Some 0
      | c # cs \<Rightarrow>
          (if c = CHR ''e'' \<or> c = CHR ''E'' then
             (case parse_sign cs of (neg, ds) \<Rightarrow>
                (if ds \<noteq> [] \<and> list_all is_digit ds
                 then Some (if neg then - int (digits_nat ds) else int (digits_nat ds)) else None))
           else None))"

definition decimal_f32 :: "bool \<Rightarrow> nat \<Rightarrow> int \<Rightarrow> f32" where
  "decimal_f32 neg m x =
     f32_make neg (round_mag (int m * 10 ^ nat x * 2 ^ 149) (10 ^ nat (- x)))"

definition parse_number :: "bool \<Rightarrow> string \<Rightarrow> f32 option" where
  "parse_number neg s =
     (let whole = takeWhile is_digit s; rest = dropWhile is_digit s;
          frac = (case rest of c # cs \<Rightarrow> (if c = CHR ''.'' then takeWhile is_digit cs else [])
                  | [] \<Rightarrow> []);
          tail = (case rest of c # cs \<Rightarrow> (if c = CHR ''.'' then dropWhile is_digit cs else rest)
                 | [] \<Rightarrow> [])
      in if whole @ frac = [] then None
         else (case parse_exponent tail of
                 None \<Rightarrow> None
               | Some x \<Rightarrow> Some (decimal_f32 neg (digits_nat (whole @ frac)) (x - int (length frac)))))"

definition parse_f32 :: "string \<Rightarrow> f32 option" where
  "parse_f32 s =
     (case parse_sign s of (neg, t) \<Rightarrow>
        (if eq_ignore_ascii_case t ''inf'' \<or> eq_ignore_ascii_case t ''infinity''
           then Some (f32_make neg inf_mag)
         else if eq_ignore_ascii_case t ''nan'' then Some (f32_make neg 0x7FC00000)
         else parse_number neg t))"

definition env_f32 :: "env \<Rightarrow> string \<Rightarrow> f32 \<Rightarrow> f32" where
  "env_f32 env name dflt =
     (case env name of
        None \<Rightarrow> dflt
      | Some v \<Rightarrow> (case parse_f32 v of None \<Rightarrow> dflt | Some x \<Rightarrow> x))"

lemma env_usize_bound: "dflt < 2 ^ 64 \<Longrightarrow> env_usize env name dflt < 2 ^ 64"
  by (auto simp: env_usize_def dest: parse_usize_bound split: option.splits)

lemma env_usize_set: "env name = Some (show_nat n) \<Longrightarrow> n < 2 ^ 64 \<Longrightarrow> env_usize env name dflt = n"
  by (simp add: env_usize_def parse_usize_show_nat)

lemma env_usize_text:
  "env name = Some s \<Longrightarrow> show_nat n = s \<Longrightarrow> n < 2 ^ 64 \<Longrightarrow> env_usize env name dflt = n"
  using env_usize_set by blast

end
