(* ===== verification/Semantic_Cache.thy ===== *)
theory Semantic_Cache
  imports Types
begin

text \<open>
  \<open>src/engines/cache.rs\<close>: the two-tier semantic cache. The \<open>RwLock\<close> around the entries is the
  list together with its poison flag (\<open>read().ok()?\<close> and the \<open>match\<close> on \<open>write()\<close> look at it);
  every operation runs under the lock, so operations are atomic and interleave as whole steps.
  The clock is an argument: the nanoseconds since the epoch, \<open>None\<close> before it.
\<close>

section \<open>State\<close>

record cache_entry =
  entry_query :: string
  embedding :: "f32 list"
  response :: string
  last_accessed :: "64 word"

record semantic_cache =
  entries :: "cache_entry list"
  capacity :: nat
  threshold :: f32
  poisoned :: bool

definition current_epoch_nanos :: "nat option \<Rightarrow> 64 word" where
  "current_epoch_nanos clock = (case clock of None \<Rightarrow> 0 | Some n \<Rightarrow> of_nat n)"

definition cache_new :: "nat \<Rightarrow> f32 \<Rightarrow> semantic_cache" where
  "cache_new cap thr = \<lparr>entries = [], capacity = cap, threshold = thr, poisoned = False\<rparr>"

section \<open>Operations\<close>

definition query_matches :: "string \<Rightarrow> cache_entry \<Rightarrow> bool" where
  "query_matches q e \<longleftrightarrow> eq_ignore_ascii_case (trim (entry_query e)) (trim q)"

fun index_of :: "('a \<Rightarrow> bool) \<Rightarrow> 'a list \<Rightarrow> nat option" where
  "index_of P [] = None"
| "index_of P (x # xs) = (if P x then Some 0 else map_option Suc (index_of P xs))"

text \<open>A hit stores the time in the entry and clones its response.\<close>

definition hit :: "semantic_cache \<Rightarrow> nat option \<Rightarrow> nat \<Rightarrow> string option \<times> semantic_cache" where
  "hit c clock i =
     (Some (response (entries c ! i)),
      c\<lparr>entries := (entries c)[i := (entries c ! i)\<lparr>last_accessed := current_epoch_nanos clock\<rparr>]\<rparr>)"

definition get_exact :: "semantic_cache \<Rightarrow> nat option \<Rightarrow> string \<Rightarrow> string option \<times> semantic_cache" where
  "get_exact c clock q =
     (if poisoned c then (None, c)
      else (case index_of (query_matches q) (entries c) of
              None \<Rightarrow> (None, c)
            | Some i \<Rightarrow> hit c clock i))"

definition dot :: "f32 list \<Rightarrow> f32 list \<Rightarrow> f32" where
  "dot a b = f32_sum (map (\<lambda>(x, y). f32_mul x y) (zip a b))"

fun best_match :: "f32 list \<Rightarrow> nat \<Rightarrow> f32 \<Rightarrow> nat option \<Rightarrow> cache_entry list \<Rightarrow> f32 \<times> nat option" where
  "best_match q i sim best [] = (sim, best)"
| "best_match q i sim best (e # es) =
     (if length (embedding e) = length q \<and> f32_lt sim (dot (embedding e) q)
      then best_match q (Suc i) (dot (embedding e) q) (Some i) es
      else best_match q (Suc i) sim best es)"

definition get_similar ::
  "semantic_cache \<Rightarrow> nat option \<Rightarrow> f32 list \<Rightarrow> string option \<times> semantic_cache" where
  "get_similar c clock q =
     (if poisoned c then (None, c)
      else (case best_match q 0 f32_minus_one None (entries c) of
              (sim, best) \<Rightarrow>
                (if f32_le (threshold c) sim
                 then (case best of None \<Rightarrow> (None, c) | Some i \<Rightarrow> hit c clock i)
                 else (None, c))))"

text \<open>\<open>min_by_key\<close>: the position of the first entry with the least key.\<close>

fun min_index :: "('a \<Rightarrow> 'k :: linorder) \<Rightarrow> 'a list \<Rightarrow> nat option" where
  "min_index f [] = None"
| "min_index f (x # xs) =
     (case min_index f xs of
        None \<Rightarrow> Some 0
      | Some i \<Rightarrow> if f x \<le> f (xs ! i) then Some 0 else Some (Suc i))"

definition remove_at :: "nat \<Rightarrow> 'a list \<Rightarrow> 'a list" where
  "remove_at i xs = take i xs @ drop (Suc i) xs"

definition make_room :: "nat \<Rightarrow> cache_entry list \<Rightarrow> cache_entry list" where
  "make_room cap es =
     (if cap \<le> length es \<and> es \<noteq> []
      then (case min_index last_accessed es of None \<Rightarrow> es | Some i \<Rightarrow> remove_at i es)
      else es)"

definition cache_insert ::
  "semantic_cache \<Rightarrow> nat option \<Rightarrow> string \<Rightarrow> f32 list \<Rightarrow> string \<Rightarrow> semantic_cache" where
  "cache_insert c clock q emb resp =
     (if poisoned c then c
      else c\<lparr>entries := make_room (capacity c) (entries c) @
             [\<lparr>entry_query = q, embedding = emb, response = resp,
               last_accessed = current_epoch_nanos clock\<rparr>]\<rparr>)"

definition cache_len :: "semantic_cache \<Rightarrow> nat" where
  "cache_len c = (if poisoned c then 0 else length (entries c))"

definition cache_is_empty :: "semantic_cache \<Rightarrow> bool" where
  "cache_is_empty c \<longleftrightarrow> cache_len c = 0"

section \<open>Facts on positions\<close>

lemma index_of_Some:
  "index_of P xs = Some i \<longleftrightarrow> i < length xs \<and> P (xs ! i) \<and> (\<forall>j < i. \<not> P (xs ! j))"
proof (induction xs arbitrary: i)
  case Nil
  then show ?case by simp
next
  case (Cons x xs)
  show ?case by (cases i) (auto simp: Cons less_Suc_eq_0_disj)
qed

lemma index_of_None: "index_of P xs = None \<longleftrightarrow> (\<forall>x \<in> set xs. \<not> P x)"
  by (induction xs) auto

lemma index_of_find: "index_of P xs = Some i \<Longrightarrow> find P xs = Some (xs ! i)"
  by (induction xs arbitrary: i) (auto split: if_splits)

lemma index_of_None_find: "index_of P xs = None \<longleftrightarrow> find P xs = None"
  by (auto simp: index_of_None find_None_iff)

lemma min_index_None [simp]: "min_index f xs = None \<longleftrightarrow> xs = []"
  by (cases xs) (auto split: option.splits)

lemma min_index_Some:
  assumes "min_index f xs = Some i"
  shows "i < length xs \<and> (\<forall>j < length xs. f (xs ! i) \<le> f (xs ! j)) \<and> (\<forall>j < i. f (xs ! i) < f (xs ! j))"
  using assms
proof (induction xs arbitrary: i)
  case Nil
  then show ?case by simp
next
  case (Cons x xs)
  show ?case
  proof (cases "min_index f xs")
    case None
    with Cons.prems show ?thesis by auto
  next
    case (Some k)
    note k = Cons.IH [OF Some]
    show ?thesis
    proof (cases "f x \<le> f (xs ! k)")
      case True
      then have "f x \<le> f (xs ! j)" if "j < length xs" for j
        using k that by (meson order_trans)
      with True Cons.prems Some show ?thesis by (auto simp: nth_Cons split: nat.splits)
    next
      case False
      with Cons.prems Some k show ?thesis by (auto simp: nth_Cons split: nat.splits)
    qed
  qed
qed

lemma mset_remove_at: "i < length xs \<Longrightarrow> mset (remove_at i xs) = mset xs - {#xs ! i#}"
proof -
  assume "i < length xs"
  then have "xs = take i xs @ xs ! i # drop (Suc i) xs" by (rule id_take_nth_drop)
  then have "mset xs = add_mset (xs ! i) (mset (take i xs) + mset (drop (Suc i) xs))"
    by (metis mset.simps(2) mset_append union_mset_add_mset_right)
  then show ?thesis by (simp add: remove_at_def)
qed

lemma length_remove_at: "i < length xs \<Longrightarrow> length (remove_at i xs) = length xs - 1"
  by (simp add: remove_at_def)

lemma set_remove_at: "set (remove_at i xs) \<subseteq> set xs"
  by (auto simp: remove_at_def dest: in_set_takeD in_set_dropD)

section \<open>Facts on the operations\<close>

lemma set_make_room: "set (make_room cap es) \<subseteq> set es"
  by (simp add: make_room_def set_remove_at split: option.split)

lemma length_make_room:
  "length (make_room cap es) = (if cap \<le> length es then length es - 1 else length es)"
  by (auto simp: make_room_def length_remove_at dest: min_index_Some split: option.split)

lemma capacity_ops [simp]:
  "capacity (snd (get_exact c t q)) = capacity c"
  "capacity (snd (get_similar c t v)) = capacity c"
  "capacity (cache_insert c t q v r) = capacity c"
  by (simp_all add: get_exact_def get_similar_def cache_insert_def hit_def split: option.split prod.split)

lemma length_ops [simp]:
  "length (entries (snd (get_exact c t q))) = length (entries c)"
  "length (entries (snd (get_similar c t v))) = length (entries c)"
  by (simp_all add: get_exact_def get_similar_def hit_def split: option.split prod.split)

definition cache_responses :: "semantic_cache \<Rightarrow> string set" where
  "cache_responses c = set (map response (entries c))"

lemma responses_hit:
  assumes "(x, c') = hit c t i" "i < length (entries c)"
  shows "cache_responses c' = cache_responses c"
proof -
  have "map response (entries c') = (map response (entries c))[i := response (entries c ! i)]"
    using assms(1) by (simp add: hit_def map_update)
  also have "\<dots> = map response (entries c)"
    using assms(2) by (metis length_map list_update_id nth_map)
  finally show ?thesis by (simp only: cache_responses_def)
qed

lemma best_match_bound:
  "best_match q i sim best es = (s, b) \<Longrightarrow> (case best of None \<Rightarrow> True | Some j \<Rightarrow> j < i) \<Longrightarrow>
     (case b of None \<Rightarrow> True | Some j \<Rightarrow> j < i + length es)"
proof (induction q i sim best es rule: best_match.induct)
  case (1 q i sim best)
  then show ?case by (auto split: option.splits)
next
  case (2 q i sim best e es)
  then show ?case by (auto split: if_splits option.splits)
qed

lemma fst_get_exact:
  "fst (get_exact c t q) =
     (if poisoned c then None else map_option response (find (query_matches q) (entries c)))"
  by (auto simp: get_exact_def hit_def index_of_None_find dest: index_of_find split: option.split)

lemma get_exact_Some:
  assumes "get_exact c t q = (Some r, c')"
  obtains i where "index_of (query_matches q) (entries c) = Some i" "\<not> poisoned c"
    "(Some r, c') = hit c t i"
  using assms by (auto simp: get_exact_def split: if_splits option.splits)

lemma get_similar_Some:
  assumes "get_similar c t v = (Some r, c')"
  obtains i sim where "best_match v 0 f32_minus_one None (entries c) = (sim, Some i)"
    "f32_le (threshold c) sim" "\<not> poisoned c" "i < length (entries c)" "(Some r, c') = hit c t i"
  using assms best_match_bound [of v 0 f32_minus_one None "entries c"]
  by (fastforce simp: get_similar_def split: if_splits option.splits prod.splits)

section \<open>The store of responses\<close>

text \<open>What a client relies on: a hit is a stored response, looking up changes no stored response,
  inserting adds at most the inserted one.\<close>

locale response_store =
  fixes lookup_exact :: "'c \<Rightarrow> nat option \<Rightarrow> string \<Rightarrow> string option \<times> 'c"
    and lookup_similar :: "'c \<Rightarrow> nat option \<Rightarrow> f32 list \<Rightarrow> string option \<times> 'c"
    and store :: "'c \<Rightarrow> nat option \<Rightarrow> string \<Rightarrow> f32 list \<Rightarrow> string \<Rightarrow> 'c"
    and responses :: "'c \<Rightarrow> string set"
  assumes exact_hit: "lookup_exact c t q = (Some r, c') \<Longrightarrow> r \<in> responses c"
    and exact_frame: "lookup_exact c t q = (res, c') \<Longrightarrow> responses c' = responses c"
    and similar_hit: "lookup_similar c t v = (Some r, c') \<Longrightarrow> r \<in> responses c"
    and similar_frame: "lookup_similar c t v = (res, c') \<Longrightarrow> responses c' = responses c"
    and store_adds: "responses (store c t q v r) \<subseteq> insert r (responses c)"
begin

definition all_responses :: "(string \<Rightarrow> bool) \<Rightarrow> 'c \<Rightarrow> bool" where
  "all_responses P c \<longleftrightarrow> (\<forall>r \<in> responses c. P r)"

lemma exact_keeps: "lookup_exact c t q = (res, c') \<Longrightarrow> all_responses P c' \<longleftrightarrow> all_responses P c"
  by (simp add: all_responses_def exact_frame)

lemma similar_keeps: "lookup_similar c t v = (res, c') \<Longrightarrow> all_responses P c' \<longleftrightarrow> all_responses P c"
  by (simp add: all_responses_def similar_frame)

lemma exact_all: "all_responses P c \<Longrightarrow> lookup_exact c t q = (Some r, c') \<Longrightarrow> P r"
  by (auto simp: all_responses_def dest: exact_hit)

lemma similar_all: "all_responses P c \<Longrightarrow> lookup_similar c t v = (Some r, c') \<Longrightarrow> P r"
  by (auto simp: all_responses_def dest: similar_hit)

lemma store_keeps: "all_responses P c \<Longrightarrow> P r \<Longrightarrow> all_responses P (store c t q v r)"
  using store_adds [of c t q v r] by (auto simp: all_responses_def)

end

interpretation cache: response_store get_exact get_similar cache_insert cache_responses
proof
  fix c t q r c'
  assume "get_exact c t q = (Some r, c')"
  then show "r \<in> cache_responses c"
    by (rule get_exact_Some) (auto simp: cache_responses_def hit_def index_of_Some)
next
  fix c t q res c'
  assume a: "get_exact c t q = (res, c')"
  show "cache_responses c' = cache_responses c"
  proof (cases res)
    case None
    with a show ?thesis
      by (auto simp: get_exact_def hit_def split: if_splits option.splits)
  next
    case (Some r)
    with a obtain i where "index_of (query_matches q) (entries c) = Some i" "(res, c') = hit c t i"
      by (auto elim: get_exact_Some)
    then show ?thesis by (intro responses_hit) (auto simp: index_of_Some)
  qed
next
  fix c t v r c'
  assume "get_similar c t v = (Some r, c')"
  then show "r \<in> cache_responses c"
    by (rule get_similar_Some) (auto simp: cache_responses_def hit_def)
next
  fix c t v res c'
  assume a: "get_similar c t v = (res, c')"
  show "cache_responses c' = cache_responses c"
  proof (cases res)
    case None
    with a show ?thesis
      by (auto simp: get_similar_def hit_def split: if_splits option.splits prod.splits)
  next
    case (Some r)
    with a obtain i where "i < length (entries c)" "(res, c') = hit c t i"
      by (auto elim: get_similar_Some)
    then show ?thesis by (intro responses_hit)
  qed
next
  fix c t q v r
  show "cache_responses (cache_insert c t q v r) \<subseteq> insert r (cache_responses c)"
    by (auto simp: cache_insert_def cache_responses_def dest: subsetD [OF set_make_room])
qed

section \<open>Interleavings\<close>

text \<open>Any number of clients, each operation atomic under the lock, at any reading of the clock; a
  writer that panics poisons the lock.\<close>

inductive cache_step :: "semantic_cache \<Rightarrow> semantic_cache \<Rightarrow> bool" where
  exact: "cache_step c (snd (get_exact c t q))"
| similar: "cache_step c (snd (get_similar c t v))"
| insert: "cache_step c (cache_insert c t q v r)"
| panic: "cache_step c (c\<lparr>poisoned := True\<rparr>)"

inductive cache_reachable :: "nat \<Rightarrow> f32 \<Rightarrow> semantic_cache \<Rightarrow> bool" for cap thr where
  new: "cache_reachable cap thr (cache_new cap thr)"
| step: "cache_reachable cap thr c \<Longrightarrow> cache_step c c' \<Longrightarrow> cache_reachable cap thr c'"

inductive_cases cache_stepE: "cache_step c c'"

lemma cache_step_capacity: "cache_step c c' \<Longrightarrow> capacity c' = capacity c"
  by (auto elim: cache_stepE)

lemma cache_step_length:
  "cache_step c c' \<Longrightarrow> length (entries c) \<le> max 1 (capacity c) \<Longrightarrow>
     length (entries c') \<le> max 1 (capacity c)"
  by (erule cache_stepE) (auto simp: cache_insert_def length_make_room)

lemma reachable_bounded:
  "cache_reachable cap thr c \<Longrightarrow> length (entries c) \<le> max 1 cap \<and> capacity c = cap"
  by (induction rule: cache_reachable.induct)
    (auto simp: cache_new_def dest: cache_step_length cache_step_capacity)

section \<open>Recency\<close>

text \<open>The abstract cache: the entries from the least to the most recently used. Insertion into a
  full queue drops its head; a hit moves the entry to the end.\<close>

definition recency :: "cache_entry list \<Rightarrow> cache_entry list" where
  "recency es = sort_by (\<lambda>a b. last_accessed a \<le> last_accessed b) es"

definition lru_push :: "nat \<Rightarrow> cache_entry \<Rightarrow> cache_entry list \<Rightarrow> cache_entry list" where
  "lru_push cap e q = (if cap \<le> length q \<and> q \<noteq> [] then tl q else q) @ [e]"

definition lru_touch :: "cache_entry \<Rightarrow> cache_entry \<Rightarrow> cache_entry list \<Rightarrow> cache_entry list" where
  "lru_touch e e' q = remove1 e q @ [e']"

definition fresh_time :: "64 word \<Rightarrow> cache_entry list \<Rightarrow> bool" where
  "fresh_time now es \<longleftrightarrow>
     distinct (map last_accessed es) \<and> (\<forall>e \<in> set es. last_accessed e < now)"

interpretation age: comparator "\<lambda>a b. last_accessed a \<le> last_accessed b"
  by unfold_locales auto

lemma recency_eqI:
  assumes "sorted_wrt (\<lambda>a b. last_accessed a \<le> last_accessed b) ys" "mset ys = mset es"
    "distinct (map last_accessed es)"
  shows "recency es = ys"
  unfolding recency_def
proof (rule age.sorted_unique)
  show "sorted_wrt (\<lambda>a b. last_accessed a \<le> last_accessed b)
      (sort_by (\<lambda>a b. last_accessed a \<le> last_accessed b) es)"
    by (rule age.sorted_sort_by)
  show "x = y" if "x \<in> set (sort_by (\<lambda>a b. last_accessed a \<le> last_accessed b) es)"
    "y \<in> set (sort_by (\<lambda>a b. last_accessed a \<le> last_accessed b) es)"
    "last_accessed x \<le> last_accessed y" "last_accessed y \<le> last_accessed x" for x y
    using that assms(3) by (auto simp: distinct_map inj_on_def)
qed (use assms in simp_all)

lemma set_recency [simp]: "set (recency es) = set es"
  by (simp add: recency_def)

lemma length_recency [simp]: "length (recency es) = length es"
  by (simp add: recency_def)

lemma recency_Nil_iff [simp]: "recency es = [] \<longleftrightarrow> es = []"
  by (metis length_0_conv length_recency)

lemma sorted_recency: "sorted_wrt (\<lambda>a b. last_accessed a \<le> last_accessed b) (recency es)"
  by (simp add: recency_def age.sorted_sort_by)

lemma mset_recency [simp]: "mset (recency es) = mset es"
  by (simp add: recency_def)

lemma recency_snoc:
  assumes "fresh_time (last_accessed e) es"
  shows "recency (es @ [e]) = recency es @ [e]"
  using assms sorted_recency [of es]
  by (intro recency_eqI) (auto simp: fresh_time_def sorted_wrt_append less_imp_le)

lemma recency_remove_min:
  assumes "min_index last_accessed es = Some i" "distinct (map last_accessed es)"
  shows "recency es = es ! i # recency (remove_at i es)"
proof (rule recency_eqI)
  note i = min_index_Some [OF assms(1)]
  have "\<forall>e \<in> set es. last_accessed (es ! i) \<le> last_accessed e"
    using i by (auto simp: in_set_conv_nth)
  then show "sorted_wrt (\<lambda>a b. last_accessed a \<le> last_accessed b)
      (es ! i # recency (remove_at i es))"
    using set_remove_at sorted_recency by (auto dest!: subsetD [OF set_remove_at])
  show "mset (es ! i # recency (remove_at i es)) = mset es"
    using i by (simp add: mset_remove_at)
qed fact

lemma distinct_make_room:
  "distinct (map last_accessed es) \<Longrightarrow> distinct (map last_accessed (make_room cap es))"
proof -
  assume d: "distinct (map last_accessed es)"
  have "distinct (map last_accessed (remove_at i es))" for i
  proof -
    have "map last_accessed (remove_at i es) = take i (map last_accessed es) @ drop (Suc i) (map last_accessed es)"
      by (simp add: remove_at_def take_map drop_map)
    then show ?thesis
      using d set_take_disj_set_drop_if_distinct [OF d, of i "Suc i"] by simp
  qed
  with d show ?thesis by (simp add: make_room_def split: option.split)
qed

lemma recency_make_room:
  assumes "distinct (map last_accessed es)"
  shows "recency (make_room cap es) =
    (if cap \<le> length es \<and> es \<noteq> [] then tl (recency es) else recency es)"
proof (cases "cap \<le> length es \<and> es \<noteq> []")
  case True
  then obtain i where "min_index last_accessed es = Some i"
    by (cases "min_index last_accessed es") auto
  with True assms show ?thesis by (simp add: make_room_def recency_remove_min)
next
  case False
  then show ?thesis by (auto simp: make_room_def)
qed

lemma fresh_make_room: "fresh_time now es \<Longrightarrow> fresh_time now (make_room cap es)"
  by (auto simp: fresh_time_def distinct_make_room dest: subsetD [OF set_make_room])

lemma recency_insert:
  assumes "\<not> poisoned c" "fresh_time (current_epoch_nanos clock) (entries c)"
  shows "recency (entries (cache_insert c clock q emb r)) =
    lru_push (capacity c) \<lparr>entry_query = q, embedding = emb, response = r,
       last_accessed = current_epoch_nanos clock\<rparr> (recency (entries c))"
proof -
  have "distinct (map last_accessed (entries c))" using assms(2) by (simp add: fresh_time_def)
  then show ?thesis using assms
    by (simp add: cache_insert_def recency_snoc fresh_make_room recency_make_room lru_push_def)
qed

lemma recency_hit:
  assumes "(x, c') = hit c clock i" "i < length (entries c)"
    "fresh_time (current_epoch_nanos clock) (entries c)"
  shows "recency (entries c') = lru_touch (entries c ! i)
    ((entries c ! i)\<lparr>last_accessed := current_epoch_nanos clock\<rparr>) (recency (entries c))"
proof -
  let ?es = "entries c" and ?e = "entries c ! i"
  let ?e' = "?e\<lparr>last_accessed := current_epoch_nanos clock\<rparr>"
  have e: "?e \<in> set ?es" using assms(2) by simp
  have "distinct (map last_accessed ?es)" using assms(3) by (simp add: fresh_time_def)
  then have d: "distinct ?es" by (simp add: distinct_map)
  then have dr: "distinct (recency ?es)" by (simp add: recency_def)
  have c': "entries c' = ?es[i := ?e']" using assms(1) by (simp add: hit_def)
  have rem: "remove1 ?e (recency ?es) = filter (\<lambda>y. y \<noteq> ?e) (recency ?es)"
    using dr by (simp add: distinct_remove1_removeAll removeAll_filter_not_eq)
      (metis (mono_tags))
  show ?thesis
    unfolding c' lru_touch_def
  proof (rule recency_eqI)
    show "sorted_wrt (\<lambda>a b. last_accessed a \<le> last_accessed b) (remove1 ?e (recency ?es) @ [?e'])"
      using assms(3) unfolding rem
      by (auto simp: sorted_wrt_append sorted_wrt_filter sorted_recency fresh_time_def less_imp_le)
    show "mset (remove1 ?e (recency ?es) @ [?e']) = mset (?es[i := ?e'])"
      using assms(2) by (simp add: mset_update)
    have "map last_accessed (?es[i := ?e']) = (map last_accessed ?es)[i := current_epoch_nanos clock]"
      by (simp add: map_update)
    moreover have "current_epoch_nanos clock \<notin> set (map last_accessed ?es)"
      using assms(3) by (auto simp: fresh_time_def)
    ultimately show "distinct (map last_accessed (?es[i := ?e']))"
      using assms(3) by (simp add: distinct_list_update fresh_time_def)
  qed
qed

section \<open>The most similar entry\<close>

definition comparable :: "f32 list \<Rightarrow> cache_entry \<Rightarrow> bool" where
  "comparable v e \<longleftrightarrow> length (embedding e) = length v"

lemma best_match_max:
  assumes "best_match q i sim best es = (s, b)"
  shows "(s = sim \<or> f32_lt sim s) \<and> (\<forall>e \<in> set es. comparable q e \<longrightarrow> \<not> f32_lt s (dot (embedding e) q))"
  using assms
proof (induction q i sim best es rule: best_match.induct)
  case (1 q i sim best)
  then show ?case by simp
next
  case (2 q i sim best e es)
  show ?case
  proof (cases "length (embedding e) = length q \<and> f32_lt sim (dot (embedding e) q)")
    case True
    with 2 have "s = dot (embedding e) q \<or> f32_lt (dot (embedding e) q) s"
      "\<forall>e \<in> set es. comparable q e \<longrightarrow> \<not> f32_lt s (dot (embedding e) q)" by simp_all
    with True show ?thesis by (auto intro: f32_lt_trans dest: f32_lt_trans)
  next
    case False
    with 2 have "s = sim \<or> f32_lt sim s"
      "\<forall>e \<in> set es. comparable q e \<longrightarrow> \<not> f32_lt s (dot (embedding e) q)" by (auto split: if_splits)
    with False show ?thesis by (auto simp: comparable_def dest: f32_lt_trans)
  qed
qed

lemma best_match_found:
  assumes "best_match q i sim best es = (s, b)"
  shows "(b = best \<and> s = sim) \<or>
    (\<exists>j < length es. b = Some (i + j) \<and> comparable q (es ! j) \<and> s = dot (embedding (es ! j)) q \<and>
       f32_lt sim s)"
  using assms
proof (induction q i sim best es rule: best_match.induct)
  case (1 q i sim best)
  then show ?case by simp
next
  case (2 q i sim best e es)
  show ?case
  proof (cases "length (embedding e) = length q \<and> f32_lt sim (dot (embedding e) q)")
    case True
    with 2 consider "b = Some i" "s = dot (embedding e) q"
      | j where "j < length es" "b = Some (Suc i + j)" "comparable q (es ! j)"
          "s = dot (embedding (es ! j)) q" "f32_lt (dot (embedding e) q) s" by auto
    then show ?thesis
    proof cases
      case 1
      with True show ?thesis by (intro disjI2 exI [of _ 0]) (simp add: comparable_def)
    next
      case 2
      then have "f32_lt sim s" using True f32_lt_trans by blast
      with 2 show ?thesis by (intro disjI2 exI [of _ "Suc j"]) simp
    qed
  next
    case False
    with 2 consider "b = best" "s = sim"
      | j where "j < length es" "b = Some (Suc i + j)" "comparable q (es ! j)"
          "s = dot (embedding (es ! j)) q" "f32_lt sim s" by (auto split: if_splits)
    then show ?thesis
    proof cases
      case 1
      then show ?thesis by simp
    next
      case 2
      then show ?thesis by (intro disjI2 exI [of _ "Suc j"]) simp
    qed
  qed
qed

lemma get_similar_SomeE:
  assumes "get_similar c t v = (Some r, c')"
  obtains e i where "e \<in> set (entries c)" "(Some r, c') = hit c t i" "i < length (entries c)"
    "e = entries c ! i" "r = response e" "\<not> poisoned c" "comparable v e"
    "f32_le (threshold c) (dot (embedding e) v)" "f32_lt f32_minus_one (dot (embedding e) v)"
    "\<forall>e' \<in> set (entries c). comparable v e' \<longrightarrow> \<not> f32_lt (dot (embedding e) v) (dot (embedding e') v)"
proof -
  obtain i s where b: "best_match v 0 f32_minus_one None (entries c) = (s, Some i)"
    and le: "f32_le (threshold c) s" and p: "\<not> poisoned c" and i: "i < length (entries c)"
    and h: "(Some r, c') = hit c t i"
    using assms by (rule get_similar_Some)
  have f: "comparable v (entries c ! i)" "s = dot (embedding (entries c ! i)) v" "f32_lt f32_minus_one s"
    using best_match_found [OF b] by auto
  have m: "\<forall>e' \<in> set (entries c). comparable v e' \<longrightarrow> \<not> f32_lt s (dot (embedding e') v)"
    using best_match_max [OF b] by blast
  show thesis
  proof (rule that)
    show "r = response (entries c ! i)" using h by (simp add: hit_def)
    show "entries c ! i \<in> set (entries c)" using i by simp
  qed (use h i p f(1) le f(3) m in \<open>simp_all only: f(2) not_False_eq_True\<close>)
qed

lemma similar_hit_complete:
  assumes "\<not> poisoned c" "e \<in> set (entries c)" "comparable v e"
    "f32_lt f32_minus_one (dot (embedding e) v)" "f32_le (threshold c) (dot (embedding e) v)"
  shows "\<exists>r. fst (get_similar c t v) = Some r"
proof -
  obtain s b where b: "best_match v 0 f32_minus_one None (entries c) = (s, b)"
    by (cases "best_match v 0 f32_minus_one None (entries c)")
  have max: "s = f32_minus_one \<or> f32_lt f32_minus_one s" "\<not> f32_lt s (dot (embedding e) v)"
    using best_match_max [OF b] assms(2,3) by blast+
  then have s: "f32_lt f32_minus_one s" using assms(4) by blast
  then have "s \<noteq> f32_minus_one" by (metis f32_lt_irrefl)
  then obtain j where j: "b = Some j" using best_match_found [OF b] by blast
  have "\<not> is_nan s" using s by (simp add: f32_lt_def)
  then have "f32_le (threshold c) s"
    using f32_le_not_lt [OF assms(5) max(2)] by blast
  with b j assms(1) show ?thesis by (simp add: get_similar_def hit_def)
qed

section \<open>Properties\<close>

definition demo_cache :: semantic_cache where
  "demo_cache = \<lparr>entries =
     [\<lparr>entry_query = ''Q1'', embedding = [F32 0x3F800000, F32 0], response = ''r1'', last_accessed = 7\<rparr>,
      \<lparr>entry_query = ''Q2'', embedding = [F32 0, F32 0x3F800000], response = ''r2'', last_accessed = 5\<rparr>],
     capacity = 2, threshold = F32 0x3F733333, poisoned = False\<rparr>"

text \<open>However the clients' lookups, insertions and panics interleave, a cache created with
  capacity \<open>cap\<close> never holds more than \<open>max 1 cap\<close> entries: the capacity, except that a capacity
  of zero still keeps one entry.\<close>

theorem cache_size_bounded:
  assumes "cache_reachable cap thr c"
  shows "cache_len c \<le> max 1 cap"
  using reachable_bounded [OF assms] by (simp add: cache_len_def)

theorem cache_size_bounded_witness:
  "cache_len (cache_insert (cache_insert (cache_new 0 f32_one) (Some 1) ''a'' [] ''x'')
     (Some 2) ''b'' [] ''y'') \<le> max 1 0"
  by (rule cache_size_bounded [OF cache_reachable.step [OF cache_reachable.step
        [OF cache_reachable.new [of 0 f32_one] cache_step.insert] cache_step.insert]])

text \<open>Insertion refines the LRU queue: with a clock that has advanced past every entry, the
  entries in order of recency after an insertion are the old ones, without the least recently used
  one when the cache is full, followed by the new entry.\<close>

theorem cache_insert_refines_lru:
  assumes "\<not> poisoned c" "fresh_time (current_epoch_nanos clock) (entries c)"
  shows "recency (entries (cache_insert c clock q emb r)) =
    lru_push (capacity c) \<lparr>entry_query = q, embedding = emb, response = r,
       last_accessed = current_epoch_nanos clock\<rparr> (recency (entries c))"
  using assms by (rule recency_insert)

theorem cache_insert_refines_lru_witness:
  "map entry_query (recency (entries (cache_insert demo_cache (Some 9) ''Q3'' [] ''r3''))) =
     [''Q1'', ''Q3'']"
proof -
  have rec: "recency (entries demo_cache) = [entries demo_cache ! 1, entries demo_cache ! 0]"
    by (simp add: demo_cache_def recency_def)
  show ?thesis
    by (subst cache_insert_refines_lru)
      (simp_all add: rec lru_push_def, simp_all add: demo_cache_def fresh_time_def
        current_epoch_nanos_def)
qed

text \<open>A tier-one hit returns the response of an entry whose query equals the asked one up to
  surrounding white space and ASCII case, and moves that entry to the most recently used end of the
  LRU queue.\<close>

theorem get_exact_refines_lru:
  assumes "get_exact c clock q = (Some r, c')"
    and "fresh_time (current_epoch_nanos clock) (entries c)"
  shows "\<exists>e \<in> set (entries c). query_matches q e \<and> response e = r \<and>
    recency (entries c') =
      lru_touch e (e\<lparr>last_accessed := current_epoch_nanos clock\<rparr>) (recency (entries c))"
proof -
  obtain i where i: "index_of (query_matches q) (entries c) = Some i" and h: "(Some r, c') = hit c clock i"
    using assms(1) by (rule get_exact_Some)
  then have "i < length (entries c)" "query_matches q (entries c ! i)"
    by (simp_all add: index_of_Some)
  moreover have "response (entries c ! i) = r" using h by (simp add: hit_def)
  ultimately show ?thesis using recency_hit [OF h _ assms(2)] by (intro bexI) auto
qed

lemma demo_exact:
  "get_exact demo_cache (Some 9) ''q2 '' =
     (Some ''r2'', demo_cache\<lparr>entries := (entries demo_cache)[1 := (entries demo_cache ! 1)\<lparr>last_accessed := 9\<rparr>]\<rparr>)"
  by code_simp

theorem get_exact_refines_lru_witness:
  "\<exists>e \<in> set (entries demo_cache). query_matches ''q2 '' e \<and> response e = ''r2''"
  using get_exact_refines_lru [OF demo_exact]
  by (force simp: demo_cache_def fresh_time_def current_epoch_nanos_def)

text \<open>C23: A tier-two lookup hits exactly when the lock is sound and some entry of the same dimension
  has a similarity above -1 that reaches the threshold.\<close>

theorem get_similar_hit_iff:
  "(\<exists>r. fst (get_similar c t v) = Some r) = (\<not> poisoned c \<and>
     (\<exists>e \<in> set (entries c). comparable v e \<and> f32_lt f32_minus_one (dot (embedding e) v) \<and>
        f32_le (threshold c) (dot (embedding e) v)))"
proof
  assume "\<exists>r. fst (get_similar c t v) = Some r"
  then obtain r c' where "get_similar c t v = (Some r, c')" by (cases "get_similar c t v") auto
  then show "\<not> poisoned c \<and> (\<exists>e \<in> set (entries c). comparable v e \<and>
      f32_lt f32_minus_one (dot (embedding e) v) \<and> f32_le (threshold c) (dot (embedding e) v))"
    by (rule get_similar_SomeE) blast
qed (use similar_hit_complete in blast)

text \<open>The response of a tier-two hit belongs to an entry that reaches the threshold and that no
  other entry of the same dimension exceeds in similarity.\<close>

theorem get_similar_best:
  assumes "fst (get_similar c t v) = Some r"
  shows "\<exists>e \<in> set (entries c). r = response e \<and> f32_le (threshold c) (dot (embedding e) v) \<and>
    filter (\<lambda>e'. comparable v e' \<and> f32_lt (dot (embedding e) v) (dot (embedding e') v)) (entries c) = []"
proof -
  obtain c' where "get_similar c t v = (Some r, c')" using assms by (cases "get_similar c t v") simp
  then show ?thesis
    by (rule get_similar_SomeE) (auto simp: filter_empty_conv)
qed

lemma demo_similar: "fst (get_similar demo_cache (Some 9) [F32 0x3F7D70A4, F32 0x3E106080]) = Some ''r1''"
  by code_simp

theorem get_similar_best_witness:
  "\<exists>e \<in> set (entries demo_cache). ''r1'' = response e \<and>
     f32_le (threshold demo_cache) (dot (embedding e) [F32 0x3F7D70A4, F32 0x3E106080])"
  using get_similar_best [OF demo_similar] by blast

text \<open>Insertion appends and never replaces: while an entry for the same query survives the
  eviction, the exact lookup keeps answering with that entry's response, and the inserted response is
  found only when no surviving entry matches.\<close>

theorem exact_after_insert:
  assumes "\<not> poisoned c"
  shows "fst (get_exact (cache_insert c clock q emb r) clock' q') =
    (case find (query_matches q') (make_room (capacity c) (entries c)) of
       Some e \<Rightarrow> Some (response e)
     | None \<Rightarrow> if eq_ignore_ascii_case (trim q) (trim q') then Some r else None)"
proof -
  have "find P (xs @ [x]) = (case find P xs of Some y \<Rightarrow> Some y | None \<Rightarrow> if P x then Some x else None)"
    for P and xs :: "cache_entry list" and x
    by (induction xs) auto
  with assms show ?thesis
    by (simp add: fst_get_exact cache_insert_def query_matches_def split: option.split)
qed

theorem exact_after_insert_witness:
  "fst (get_exact (cache_insert (demo_cache\<lparr>capacity := 8\<rparr>) (Some 9) ''Q1'' [] ''fresh'') (Some 9) ''Q1'') =
     Some ''r1''"
  by (subst exact_after_insert) (simp add: demo_cache_def, code_simp)

end
