(* ===== verification/F32_Bounds.thy ===== *)
theory F32_Bounds
  imports F32
begin

text \<open>
  Error bounds for binary32 arithmetic: one rounding changes a value by at most a factor of two (a
  crude bound that needs no case distinction on the exponent), the integer square root, sums and
  maxima of non-negative numbers, and the chain of bounds behind dividing a vector by its norm.
\<close>

section \<open>Rounding within a factor of two\<close>

lemma mag_val_0 [simp]: "mag_val 0 = 0"
  by (simp add: mag_val_def)

lemma round_mag_upper:
  assumes "0 < d" "0 \<le> p" "round_mag p d < inf_mag"
  shows "mag_val (round_mag p d) * d \<le> 2 * p"
  using round_mag_nearest [OF assms(1,2,3), of 0] assms(2) by simp

lemma pow_mag:
  assumes "k \<le> 277"
  shows "\<exists>n. 0 \<le> n \<and> n \<le> inf_mag \<and> mag_val n = 2 ^ k"
proof (cases "k < 24")
  case True
  then have "(2 :: int) ^ k \<le> 2 ^ 23" by (intro power_increasing) simp_all
  then have "mag_val (2 ^ k) = 2 ^ k" by (intro mag_val_small) simp_all
  moreover have "(2 :: int) ^ k \<le> inf_mag" using \<open>2 ^ k \<le> 2 ^ 23\<close> by (simp add: inf_mag_def)
  ultimately show ?thesis by (intro exI [of _ "2 ^ k"]) simp
next
  case False
  define e where "e = k - 23"
  have k: "k = 23 + e" using False by (simp add: e_def)
  have "mag_val (int e * 2 ^ 23 + 2 ^ 23) = 2 ^ 23 * 2 ^ e"
    by (intro mag_val_normal) simp_all
  moreover have "int e * 2 ^ 23 + 2 ^ 23 \<le> inf_mag"
    using assms by (simp add: k inf_mag_def)
  ultimately show ?thesis
    by (intro exI [of _ "int e * 2 ^ 23 + 2 ^ 23"]) (simp add: k power_add)
qed

lemma mag_val_inf: "mag_val inf_mag = 2 ^ 277"
  by (simp add: mag_val_def inf_mag_def)

lemma round_mag_pow_ge:
  assumes "0 < d" "2 ^ k * d \<le> p" "k \<le> 277"
  shows "2 ^ k \<le> mag_val (round_mag p d)"
proof -
  obtain n where n: "0 \<le> n" "n \<le> inf_mag" "mag_val n = 2 ^ k" using pow_mag [OF assms(3)] by blast
  have "n \<le> round_mag p d" using assms n by (intro round_mag_geI) simp_all
  moreover have "round_mag p d \<le> inf_mag" by (rule round_mag_le_inf)
  ultimately have "mag_val n \<le> mag_val (round_mag p d)"
    using n mag_val_le_iff [of n "round_mag p d"] by simp
  then show ?thesis using n by simp
qed

lemma round_mag_lower:
  assumes "0 < d" "d \<le> p" "round_mag p d < inf_mag"
  shows "p \<le> 2 * mag_val (round_mag p d) * d"
proof -
  define q where "q = p div d"
  have q: "1 \<le> q" using assms by (simp add: q_def zdiv_mono1 [of d p d, simplified])
  obtain k where lo: "2 ^ k \<le> q" and hi: "q < 2 ^ (k + 1)"
  proof
    have "1 \<le> bitlen q" using q bitlen_eq_zero_iff [of q] bitlen_nonneg [of q] by linarith
    then have "nat (bitlen q) = nat (bitlen q - 1) + 1" by simp
    with bitlen_bounds [of q] q
    show "2 ^ nat (bitlen q - 1) \<le> q" "q < 2 ^ (nat (bitlen q - 1) + 1)" by simp_all
  qed
  have "2 ^ k * d \<le> q * d" using lo assms(1) by (intro mult_right_mono) simp_all
  also have "q * d \<le> p"
    using pos_mod_sign [OF assms(1), of p] div_mult_mod_eq [of p d] unfolding q_def by linarith
  finally have "2 ^ k * d \<le> p" .
  have k: "k \<le> 277"
  proof (rule ccontr)
    assume "\<not> k \<le> 277"
    then have "(2 :: int) ^ 277 \<le> 2 ^ k" by (intro power_increasing) simp_all
    then have "2 ^ 277 * d \<le> 2 ^ k * d" using assms(1) by (intro mult_right_mono) simp_all
    from this \<open>2 ^ k * d \<le> p\<close> have "mag_val inf_mag * d \<le> p" unfolding mag_val_inf by (rule order_trans)
    then have "inf_mag \<le> round_mag p d"
      using assms(1) by (intro round_mag_geI) (simp_all add: inf_mag_def)
    with assms(3) show False by simp
  qed
  have "p = q * d + p mod d" by (simp add: q_def)
  then have "p < (q + 1) * d" using pos_mod_bound [OF assms(1), of p] by (simp add: distrib_right)
  also have "\<dots> \<le> (2 * 2 ^ k) * d" using hi assms(1) by (intro mult_right_mono) simp_all
  also have "\<dots> \<le> (2 * mag_val (round_mag p d)) * d"
    using round_mag_pow_ge [OF assms(1) \<open>2 ^ k * d \<le> p\<close> k] assms(1)
    by (intro mult_right_mono) simp_all
  finally show ?thesis by simp
qed

lemma isqrt_spec:
  assumes "0 \<le> n"
  shows "0 \<le> isqrt n \<and> isqrt n * isqrt n \<le> n \<and> n < (isqrt n + 1) * (isqrt n + 1)"
  using assms
proof (induction n rule: isqrt.induct)
  case (1 n)
  show ?case
  proof (cases "n \<le> 0")
    case True
    with 1 have "n = 0" by simp
    then show ?thesis by (simp add: isqrt.simps [of 0])
  next
    case False
    define s where "s = isqrt (n div 4)"
    have s: "0 \<le> s" "s * s \<le> n div 4" "n div 4 < (s + 1) * (s + 1)"
      using 1 False by (simp_all add: s_def)
    have "4 * (s * s) \<le> n" using s(2) by linarith
    have "n div 4 + 1 \<le> (s + 1) * (s + 1)" using s(3) by simp
    then have "n < 4 * ((s + 1) * (s + 1))" by linarith
    have eq: "isqrt n = (if (2 * s + 1) * (2 * s + 1) \<le> n then 2 * s + 1 else 2 * s)"
      using False by (simp add: isqrt.simps [of n] s_def Let_def)
    show ?thesis
      using s(1) \<open>4 * (s * s) \<le> n\<close> \<open>n < 4 * ((s + 1) * (s + 1))\<close>
      by (auto simp: eq algebra_simps)
  qed
qed

lemma isqrt_ge:
  assumes "0 \<le> r" "r * r \<le> n"
  shows "r \<le> isqrt n"
proof (rule ccontr)
  assume "\<not> r \<le> isqrt n"
  have "0 \<le> n" using assms mult_nonneg_nonneg [of r r] by linarith
  with \<open>\<not> r \<le> isqrt n\<close> have "(isqrt n + 1) * (isqrt n + 1) \<le> r * r"
    using isqrt_spec [of n] by (intro mult_mono) simp_all
  with assms isqrt_spec [OF \<open>0 \<le> n\<close>] show False by linarith
qed

lemma round_sqrt_mag_ge:
  assumes "2 ^ 296 \<le> x"
  shows "125 * 2 ^ 23 + 2 ^ 23 \<le> round_sqrt_mag x"
proof -
  define r e q where "r = isqrt x" and "e = last_place r" and "q = r div 2 ^ e"
  have r: "2 ^ 148 \<le> r" using assms unfolding r_def by (intro isqrt_ge) simp_all
  have e: "125 \<le> e" unfolding e_def using r by (intro last_place_geI) simp_all
  have "0 \<le> r" using r by (rule order_trans [rotated]) simp
  then have "0 \<le> q" by (simp add: q_def pos_imp_zdiv_nonneg_iff)
  have "int e * 2 ^ 23 + q \<le> round_sqrt_mag x"
    by (simp add: round_sqrt_mag_def Let_def flip: r_def e_def q_def)
  moreover have "125 * 2 ^ 23 + 2 ^ 23 \<le> int e * 2 ^ 23 + q"
  proof (cases "e = 125")
    case True
    have "(2 ^ 148 :: int) div 2 ^ 125 \<le> r div 2 ^ 125" using r by (intro zdiv_mono1) simp_all
    then show ?thesis using True by (simp add: q_def)
  next
    case False
    with e \<open>0 \<le> q\<close> show ?thesis by simp
  qed
  ultimately show ?thesis by linarith
qed

lemma round_sqrt_mag_lt:
  assumes "0 \<le> x" "x < 2 ^ 426"
  shows "round_sqrt_mag x < inf_mag" "0 \<le> round_sqrt_mag x"
proof -
  define r e q where "r = isqrt x" and "e = last_place r" and "q = r div 2 ^ e"
  have r: "0 \<le> r" "r * r \<le> x" using isqrt_spec [OF assms(1)] by (simp_all add: r_def)
  have "r < 2 ^ 213"
  proof (rule ccontr)
    assume "\<not> r < 2 ^ 213"
    then have "2 ^ 213 * 2 ^ 213 \<le> r * r" by (intro mult_mono) simp_all
    with r assms show False by simp
  qed
  then have e: "e \<le> 189" unfolding e_def by (intro last_place_leI) simp
  have "r < 2 ^ 24 * 2 ^ e" using last_place_upper [of r] by (simp add: e_def power_add)
  moreover have "q * 2 ^ e \<le> r"
  proof -
    have "0 < (2 :: int) ^ e" by simp
    from pos_mod_sign [OF this, of r] div_mult_mod_eq [of r "2 ^ e"] show ?thesis
      unfolding q_def by linarith
  qed
  ultimately have "q * 2 ^ e < 2 ^ 24 * 2 ^ e" by linarith
  then have "q < 2 ^ 24" by (rule mult_right_less_imp_less) simp
  moreover have "round_sqrt_mag x \<le> int e * 2 ^ 23 + (q + 1)"
    by (simp add: round_sqrt_mag_def Let_def flip: r_def e_def q_def)
  ultimately show "round_sqrt_mag x < inf_mag" using e by (simp add: inf_mag_def)
  have "0 \<le> q" using r by (simp add: q_def pos_imp_zdiv_nonneg_iff)
  moreover have "int e * 2 ^ 23 + q \<le> round_sqrt_mag x"
    by (simp add: round_sqrt_mag_def Let_def flip: r_def e_def q_def)
  ultimately show "0 \<le> round_sqrt_mag x" by (meson add_nonneg_nonneg of_nat_0_le_iff order_trans zero_le_mult_iff zero_le_numeral zero_le_power)
qed

lemma pos_num_square:
  assumes "\<not> is_nan x"
  shows "pos_num (f32_mul x x)"
proof (cases "is_inf x")
  case True
  then show ?thesis using assms
    by (simp add: f32_mul_def is_inf_def inf_mag_def pos_num_make)
next
  case False
  with assms show ?thesis by (simp add: f32_mul_def pos_num_round)
qed

lemma pos_num_foldl_add:
  "\<forall>x \<in> set xs. pos_num x \<Longrightarrow> pos_num a \<Longrightarrow>
     pos_num (foldl f32_add a xs) \<and> a \<le> foldl f32_add a xs"
proof (induction xs arbitrary: a)
  case Nil
  then show ?case by simp
next
  case (Cons x xs)
  then have "pos_num (f32_add a x)" "a \<le> f32_add a x" by (simp_all add: pos_num_add f32_add_ge_left)
  with Cons.IH [of "f32_add a x"] Cons.prems show ?case by auto
qed

lemma f32_sum_ge:
  assumes "\<forall>x \<in> set xs. pos_num x" "y \<in> set xs"
  shows "pos_num (f32_sum xs) \<and> y \<le> f32_sum xs"
proof -
  obtain as bs where xs: "xs = as @ y # bs" using assms(2) by (auto simp: in_set_conv_decomp)
  define a where "a = foldl f32_add f32_zero as"
  have a: "pos_num a" using assms(1) pos_num_foldl_add [of as f32_zero] by (simp add: a_def xs)
  have y: "pos_num y" using assms by blast
  have "y \<le> f32_add a y"
    using f32_add_ge_left [OF y a] by (simp add: f32_add_commute [OF a y])
  moreover have "pos_num (f32_add a y)" using a y by (rule pos_num_add)
  ultimately show ?thesis
    using assms(1) pos_num_foldl_add [of bs "f32_add a y"] by (auto simp: f32_sum_def xs a_def)
qed

text \<open>The maximum of the magnitudes.\<close>

lemma f32_max_pos: "pos_num x \<Longrightarrow> pos_num y \<Longrightarrow> f32_max x y = max x y"
  using pos_num_le_val [of x y] pos_num_le_val [of y x]
  by (auto simp: f32_max_def f32_lt_def pos_num_def max_def)

lemma max_abs_fold:
  "\<forall>x \<in> set xs. pos_num x \<Longrightarrow> pos_num a \<Longrightarrow>
    foldl f32_max a xs \<in> insert a (set xs) \<and> pos_num (foldl f32_max a xs) \<and>
    (\<forall>x \<in> insert a (set xs). x \<le> foldl f32_max a xs)"
proof (induction xs arbitrary: a)
  case Nil
  then show ?case by simp
next
  case (Cons x xs)
  then have "pos_num (max a x)" by (simp add: max_def)
  with Cons.IH [of "max a x"] Cons.prems show ?case
    by (auto simp: f32_max_pos max_def split: if_splits)
qed

lemma pos_num_abs: "is_finite x \<Longrightarrow> pos_num (f32_abs x)"
  using mag_range [of x] by (simp add: f32_abs_def pos_num_make is_finite_def)

lemma f32_val_abs: "is_finite x \<Longrightarrow> f32_val (f32_abs x) = \<bar>f32_val x\<bar>"
  using mag_range [of x] mag_val_nonneg [of "f32_mag x"]
  by (simp add: f32_abs_def f32_val_def f32_simps is_finite_def)

lemma abs_val_mag: "\<bar>f32_val x\<bar> = mag_val (f32_mag x)"
  using mag_range [of x] mag_val_nonneg [of "f32_mag x"] by (simp add: f32_val_def)

lemma inf_mag_pos [simp]: "0 < inf_mag"
  by (simp add: inf_mag_def)

lemma finite_val_lt:
  assumes "is_finite x"
  shows "\<bar>f32_val x\<bar> < 2 ^ 277"
proof -
  have "\<not> mag_val inf_mag \<le> mag_val (f32_mag x)"
    using mag_val_le_iff [of inf_mag "f32_mag x"] mag_range [of x] assms
    by (simp add: is_finite_def less_imp_le)
  then show ?thesis unfolding abs_val_mag mag_val_inf by (rule not_le_imp_less)
qed

lemma f32_mul_finite:
  assumes "is_finite x" "is_finite y"
  shows "f32_mul x y =
    f32_make (f32_sign x \<noteq> f32_sign y) (round_mag (\<bar>f32_val x\<bar> * \<bar>f32_val y\<bar>) (2 ^ 149))"
  using assms by (simp add: f32_mul_def Let_def is_nan_def is_inf_def is_finite_def)

lemma f32_mag_mul_finite:
  assumes "is_finite x" "is_finite y"
  shows "f32_mag (f32_mul x y) = round_mag (\<bar>f32_val x\<bar> * \<bar>f32_val y\<bar>) (2 ^ 149)"
    and "f32_sign (f32_mul x y) = (f32_sign x \<noteq> f32_sign y)"
  by (simp_all add: f32_mul_finite [OF assms] f32_make_sel round_mag_nonneg round_mag_le_inf)

text \<open>The reciprocal of the largest magnitude scales that magnitude to at least one half.\<close>

lemma recip_parts:
  assumes "pos_num y" "is_finite y" "0 < f32_val y"
  shows "f32_div f32_one y = f32_make False (round_mag (2 ^ 298) (f32_val y))"
  using f32_div_pos [OF pos_num_one finite_one assms] by (simp add: f32_val_one)

lemma scaled_ge_half:
  assumes x: "is_finite x" and nz: "0 < \<bar>f32_val x\<bar>"
    and t: "t = f32_mul x (f32_div f32_one (f32_abs x))"
  shows "2 ^ 148 \<le> mag_val (f32_mag t)"
proof -
  define v where "v = \<bar>f32_val x\<bar>"
  define r where "r = round_mag (2 ^ 298) v"
  have v: "0 < v" "v < 2 ^ 277" using nz finite_val_lt [OF x] by (simp_all add: v_def)
  have fin: "is_finite (f32_abs x)"
    using x mag_range [of x] by (simp add: f32_abs_def is_finite_def f32_make_sel)
  have inv: "f32_div f32_one (f32_abs x) = f32_make False r"
    using recip_parts [OF pos_num_abs [OF x] fin] v(1) by (simp add: f32_val_abs [OF x] r_def v_def)
  have r: "0 \<le> r" "r \<le> inf_mag" using v(1) by (simp_all add: r_def round_mag_nonneg round_mag_le_inf)
  have m: "f32_mag (f32_make False r) = r" "\<not> f32_sign (f32_make False r)"
    using r by (simp_all add: f32_make_sel)
  show ?thesis
  proof (cases "r < inf_mag")
    case True
    then have rfin: "is_finite (f32_make False r)" by (simp add: is_finite_def m)
    have "2 ^ 298 \<le> 2 * mag_val r * v"
      unfolding r_def using v True by (intro round_mag_lower) (simp_all add: r_def)
    then have "2 ^ 148 * 2 ^ 149 \<le> v * mag_val r" by (simp add: algebra_simps)
    then have "2 ^ 148 \<le> mag_val (round_mag (v * mag_val r) (2 ^ 149))"
      by (intro round_mag_pow_ge) simp_all
    then show ?thesis
      by (simp add: t inv f32_mag_mul_finite [OF x rfin] abs_val_mag m flip: v_def)
        (simp add: v_def abs_val_mag)
  next
    case False
    then have "r = inf_mag" using r by simp
    moreover have "f32_mag x \<noteq> 0" using nz by (auto simp: abs_val_mag)
    ultimately have "t = f32_make (f32_sign x \<noteq> f32_sign (f32_make False r)) inf_mag"
      using x r m mag_range [of x] inf_mag_pos by (auto simp: t inv f32_mul_def Let_def is_nan_def is_inf_def is_finite_def)
    then have "f32_mag t = inf_mag" by (simp add: f32_make_sel inf_mag_def)
    then show ?thesis by (simp add: mag_val_inf)
  qed
qed

lemma square_ge_quarter:
  assumes "\<not> is_nan t" "2 ^ 148 \<le> mag_val (f32_mag t)"
  shows "2 ^ 147 \<le> f32_val (f32_mul t t)"
proof (cases "is_inf t")
  case True
  then have "f32_mul t t = f32_make False inf_mag"
    using assms(1) by (simp add: f32_mul_def is_inf_def inf_mag_def)
  then have "f32_val (f32_mul t t) = mag_val inf_mag" by (simp add: f32_val_def f32_make_sel inf_mag_def)
  then show ?thesis by (simp add: mag_val_inf)
next
  case False
  then have fin: "is_finite t" using assms(1) not_nan_iff by blast
  have "2 ^ 148 * 2 ^ 148 \<le> mag_val (f32_mag t) * mag_val (f32_mag t)"
    using assms(2) by (intro mult_mono) (simp_all add: order_trans [of 0 "2 ^ 148"])
  then have "2 ^ 147 \<le> mag_val (round_mag (mag_val (f32_mag t) * mag_val (f32_mag t)) (2 ^ 149))"
    by (intro round_mag_pow_ge) simp_all
  moreover have "\<not> f32_sign (f32_mul t t)" by (simp add: f32_mag_mul_finite [OF fin fin])
  ultimately show ?thesis
    by (simp add: f32_val_def f32_mag_mul_finite [OF fin fin] abs_val_mag)
qed

lemma f32_sum_nan:
  assumes "x \<in> set xs" "is_nan x"
  shows "is_nan (f32_sum xs)"
proof -
  have stays: "is_nan a \<Longrightarrow> is_nan (foldl f32_add a ys)" for a ys
  proof (induction ys arbitrary: a)
    case (Cons y ys)
    have "is_nan f32_nan" by (simp add: is_nan_def f32_nan_def f32_mag_def inf_mag_def)
    with Cons show ?case by (simp add: f32_add_def)
  qed simp
  obtain as bs where xs: "xs = as @ x # bs" using assms(1) by (auto simp: in_set_conv_decomp)
  have "is_nan (f32_add a x)" for a
    using assms(2) by (simp add: f32_add_def) (simp add: is_nan_def f32_nan_def f32_mag_def inf_mag_def)
  then show ?thesis using stays by (simp add: f32_sum_def xs)
qed

lemma nan_nan [simp]: "is_nan f32_nan" "\<not> is_finite f32_nan"
  by (simp_all add: is_nan_def is_finite_def f32_nan_def f32_mag_def inf_mag_def)

lemma inf_not_finite [simp]: "\<not> is_finite (f32_make s inf_mag)"
  by (simp add: is_finite_def f32_make_sel inf_mag_def)

text \<open>The norm of the slice is not finite, or at least a quarter of the largest magnitude.\<close>

lemma sqrt_large:
  assumes "is_nan s \<or> pos_num s \<and> 2 ^ 147 \<le> f32_val s" "is_finite (f32_mul mx (f32_sqrt s))"
    and mx: "pos_num mx" "is_finite mx" "0 < f32_val mx"
  obtains q where "f32_sqrt s = f32_make False q" "0 \<le> q" "q < inf_mag" "2 ^ 148 \<le> mag_val q"
proof -
  have mx0: "\<not> is_nan mx" "\<not> is_inf mx" "f32_mag mx \<noteq> 0"
    using mx by (auto simp: pos_num_def is_finite_def is_inf_def f32_val_def)
  have "\<not> is_nan s"
    using assms(2) mx0 by (auto simp: f32_sqrt_def f32_mul_def)
  with assms(1) have s: "pos_num s" "2 ^ 147 \<le> f32_val s" by blast+
  have nz: "f32_mag s \<noteq> 0" using s by (auto simp: f32_simps)
  have fin: "\<not> is_inf s"
  proof
    assume "is_inf s"
    with s nz have "f32_sqrt s = s" by (simp add: f32_sqrt_def pos_num_def)
    with assms(2) mx0 \<open>is_inf s\<close> \<open>\<not> is_nan s\<close> nz show False by (simp add: f32_mul_def)
  qed
  then have sfin: "is_finite s" using \<open>\<not> is_nan s\<close> not_nan_iff by blast
  have x: "2 ^ 296 \<le> f32_val s * 2 ^ 149" "0 \<le> f32_val s * 2 ^ 149" "f32_val s * 2 ^ 149 < 2 ^ 426"
    using s(2) finite_val_lt [OF sfin] by simp_all
  define q where "q = round_sqrt_mag (f32_val s * 2 ^ 149)"
  have q: "0 \<le> q" "q < inf_mag" "125 * 2 ^ 23 + 2 ^ 23 \<le> q"
    using round_sqrt_mag_lt [OF x(2,3)] round_sqrt_mag_ge [OF x(1)] by (simp_all add: q_def)
  have "mag_val (125 * 2 ^ 23 + 2 ^ 23) \<le> mag_val q"
    using q by (subst mag_val_le_iff) (simp_all add: inf_mag_def)
  then have "2 ^ 148 \<le> mag_val q" by (simp add: mag_val_def)
  moreover have "f32_sqrt s = f32_make False q"
    using s nz fin by (simp add: f32_sqrt_def pos_num_def q_def)
  ultimately show ?thesis using q by (intro that)
qed

lemma norm_lower:
  assumes mx: "pos_num mx" "is_finite mx" "0 < f32_val mx"
    and s: "is_nan s \<or> pos_num s \<and> 2 ^ 147 \<le> f32_val s"
    and norm: "nrm = f32_mul mx (f32_sqrt s)" "is_finite nrm" "2 ^ 23 < f32_val nrm"
  shows "f32_val mx \<le> 4 * f32_val nrm"
proof -
  obtain q where q: "f32_sqrt s = f32_make False q" "0 \<le> q" "q < inf_mag" "2 ^ 148 \<le> mag_val q"
    using sqrt_large [OF s _ mx] norm(1,2) by blast
  then have qfin: "is_finite (f32_make False q)" "f32_mag (f32_make False q) = q"
    "\<not> f32_sign (f32_make False q)"
    by (simp_all add: is_finite_def f32_make_sel)
  define v where "v = f32_val mx"
  have v: "0 < v" "\<bar>v\<bar> = v" "\<not> f32_sign mx" using mx by (simp_all add: v_def pos_num_def)
  have mag: "f32_mag nrm = round_mag (v * mag_val q) (2 ^ 149)" "\<not> f32_sign nrm"
    using f32_mag_mul_finite [OF mx(2) qfin(1)] qfin(2,3) v(2,3)
    by (simp_all add: norm(1) q(1) abs_val_mag [of "f32_make False q"] flip: v_def)
  then have val: "f32_val nrm = mag_val (round_mag (v * mag_val q) (2 ^ 149))" by (simp add: f32_val_def)
  show ?thesis
  proof (cases "v < 2")
    case True
    with norm(3) show ?thesis by (simp add: v_def)
  next
    case False
    have "v * 2 ^ 148 \<le> v * mag_val q" using q(4) v(1) by (intro mult_left_mono) simp_all
    then have mono: "round_mag v 2 \<le> round_mag (v * mag_val q) (2 ^ 149)"
      by (intro round_mag_mono) simp_all
    moreover have "round_mag (v * mag_val q) (2 ^ 149) < inf_mag"
      using norm(2) by (simp add: is_finite_def mag(1))
    ultimately have fin: "round_mag v 2 < inf_mag" by linarith
    have "v \<le> 2 * mag_val (round_mag v 2) * 2" using False fin by (intro round_mag_lower) simp_all
    moreover have "mag_val (round_mag v 2) \<le> f32_val nrm"
    proof -
      have "0 \<le> round_mag v 2" using v(1) by (simp add: round_mag_nonneg)
      then show ?thesis unfolding val using mono
        by (subst mag_val_le_iff) (simp_all add: round_mag_le_inf order_trans [OF _ mono])
    qed
    ultimately show ?thesis unfolding v_def by linarith
  qed
qed

definition f32_eight :: f32 where "f32_eight = F32 0x41000000"

lemma eight: "pos_num f32_eight" "f32_mag f32_eight = 130 * 2 ^ 23" "mag_val (130 * 2 ^ 23) = 2 ^ 152"
  by (simp_all add: f32_eight_def pos_num_def f32_sign_def is_nan_def f32_mag_def inf_mag_def mag_val_def)

text \<open>One component times the reciprocal of the norm.\<close>

lemma component_bound:
  assumes x: "is_finite x" "\<bar>f32_val x\<bar> \<le> 4 * f32_val nrm"
    and nrm: "pos_num nrm" "is_finite nrm" "2 ^ 23 < f32_val nrm"
  shows "is_finite (f32_mul x (f32_div f32_one nrm)) \<and>
    f32_abs (f32_mul x (f32_div f32_one nrm)) \<le> f32_eight \<and>
    f32_sign (f32_mul x (f32_div f32_one nrm)) = f32_sign x"
proof -
  define n where "n = f32_val nrm"
  have n: "0 < n" "2 ^ 23 < n" using nrm(3) by (simp_all add: n_def)
  define r where "r = round_mag (2 ^ 298) n"
  have inv: "f32_div f32_one nrm = f32_make False r"
    unfolding r_def n_def by (rule recip_parts [OF nrm(1,2)]) (use n in \<open>simp add: n_def\<close>)
  obtain m where m: "0 \<le> m" "m \<le> inf_mag" "mag_val m = 2 ^ 275" using pow_mag [of 275] by auto
  have "mag_val inf_mag \<noteq> mag_val m" by (simp add: m mag_val_inf)
  then have "m < inf_mag" using m(2) by (cases "m = inf_mag") auto
  moreover have "r \<le> m" unfolding r_def
    using m n by (intro round_mag_leI) simp_all
  ultimately have r: "r < inf_mag" "0 \<le> r" using n by (simp_all add: r_def round_mag_nonneg)
  then have fin: "is_finite (f32_make False r)" "f32_mag (f32_make False r) = r"
    "\<not> f32_sign (f32_make False r)"
    by (simp_all add: is_finite_def f32_make_sel)
  have rn: "mag_val r * n \<le> 2 * 2 ^ 298"
    unfolding r_def using n r by (intro round_mag_upper) (simp_all add: r_def)
  have "\<bar>f32_val x\<bar> * mag_val r \<le> (4 * n) * mag_val r"
    using x(2) mag_val_nonneg [OF r(2)] by (intro mult_right_mono) (simp_all add: n_def)
  also have "\<dots> = 4 * (mag_val r * n)" by simp
  also have "\<dots> \<le> 4 * (2 * 2 ^ 298)" using rn by (intro mult_left_mono) simp_all
  also have "\<dots> = mag_val (130 * 2 ^ 23) * 2 ^ 149" unfolding eight(3) by simp
  finally have "round_mag (\<bar>f32_val x\<bar> * mag_val r) (2 ^ 149) \<le> 130 * 2 ^ 23"
    by (intro round_mag_leI) (simp_all add: inf_mag_def)
  moreover define p where "p = f32_mul x (f32_make False r)"
  moreover have p: "f32_mag p = round_mag (\<bar>f32_val x\<bar> * mag_val r) (2 ^ 149)" "f32_sign p = f32_sign x"
    using f32_mag_mul_finite [OF x(1) fin(1)] fin(2,3)
    by (simp_all add: p_def abs_val_mag [of "f32_make False r"])
  ultimately have le: "f32_mag p \<le> 130 * 2 ^ 23" by simp
  then have pf: "is_finite p" by (simp add: is_finite_def inf_mag_def)
  have "f32_mag (f32_abs p) = f32_mag p"
    using mag_range [of p] pf by (simp add: f32_abs_def f32_make_sel is_finite_def)
  then have "f32_abs p \<le> f32_eight"
    using le by (simp add: pos_num_le_mag pos_num_abs [OF pf] eight)
  with p pf show ?thesis by (simp add: inv p_def)
qed

end
