(* ===== verification/Embeddings.thy ===== *)
theory Embeddings
  imports Types F32_Bounds
begin

text \<open>
  \<open>src/engines/embeddings.rs\<close>: downloading the model's files, the flat embedding buffer
  \<open>EmbeddingBatch\<close> with its checked indexing, the in-place normalisation and the batch embedding
  entry points. The network, the tokenizer and the BERT model are parameters; the file system is a
  record of the files present.
\<close>

section \<open>Files and downloads\<close>

text \<open>What the loaders use of \<open>std::fs\<close>: the files with their bytes, the directories made, the
  paths an operation fails at (with the message) and the outside network.\<close>

record 'n host =
  files :: "string \<Rightarrow> string option"
  dirs :: "string list"
  faults :: "string \<Rightarrow> string option"
  net :: 'n

type_synonym 'n http_get = "string \<Rightarrow> 'n \<Rightarrow> (string + string) \<times> 'n"

definition fs_create_dir_all :: "string \<Rightarrow> ('n host, err, unit) io" where
  "fs_create_dir_all d w =
     (case faults w d of Some e \<Rightarrow> (Inl (External e), w) | None \<Rightarrow> (Inr (), w\<lparr>dirs := d # dirs w\<rparr>))"

definition fs_write :: "string \<Rightarrow> string \<Rightarrow> ('n host, err, unit) io" where
  "fs_write p bytes w =
     (case faults w p of
        Some e \<Rightarrow> (Inl (External e), w)
      | None \<Rightarrow> (Inr (), w\<lparr>files := (files w)(p \<mapsto> bytes)\<rparr>))"

definition fs_read_bytes :: "string \<Rightarrow> ('n host, err, string) io" where
  "fs_read_bytes p w =
     (case files w p of
        None \<Rightarrow> (Inl (External ''No such file or directory (os error 2)''), w)
      | Some b \<Rightarrow> (Inr b, w))"

definition fs_read_to_string :: "string \<Rightarrow> ('n host, err, string) io" where
  "fs_read_to_string p =
     io_try (fs_read_bytes p)
       (\<lambda>b. if utf8_valid b then io_ok b
            else io_err (External ''stream did not contain valid UTF-8''))"

definition download_file :: "'n http_get \<Rightarrow> string \<Rightarrow> string \<Rightarrow> ('n host, err, string) io" where
  "download_file get url dest w =
     (if files w dest = None then
        (case get url (net w) of
           (Inl e, n) \<Rightarrow> (Inl (External e), w\<lparr>net := n\<rparr>)
         | (Inr bytes, n) \<Rightarrow>
             io_try (fs_write dest bytes) (\<lambda>_. io_ok dest) (w\<lparr>net := n\<rparr>))
      else (Inr dest, w))"

text \<open>The crates a loader calls: parsing the configuration, building the tokenizer and mapping the
  weights, each of the contents of its file; padding to the longest of a batch is switched on.\<close>

record ('cfg, 'tok, 'vb, 'mdl) model_crates =
  parse_config :: "string \<Rightarrow> string + 'cfg"
  hidden_size :: "'cfg \<Rightarrow> nat"
  tokenizer_from_file :: "string \<Rightarrow> string + 'tok"
  pad_batch_longest :: "'tok \<Rightarrow> 'tok"
  mmap_safetensors :: "string \<Rightarrow> string + 'vb"
  build_model :: "'vb \<Rightarrow> 'cfg \<Rightarrow> string + 'mdl"

definition bge_url :: "string \<Rightarrow> string" where
  "bge_url f = ''https://huggingface.co/BAAI/bge-base-en-v1.5/resolve/main/'' @ f"

definition load_model ::
  "'n http_get \<Rightarrow> ('cfg, 'tok, 'vb, 'mdl) model_crates \<Rightarrow> env \<Rightarrow> ('n host, err, 'mdl \<times> 'tok) io" where
  "load_model get crates env =
     (let data_dir = env_string env ''MODEL_CACHE_DIR'' ''data'' in
      io_try (fs_create_dir_all data_dir) (\<lambda>_.
      io_try (download_file get (bge_url ''config.json'') (data_dir @ ''/config.json'')) (\<lambda>config_path.
      io_try (download_file get (bge_url ''tokenizer.json'') (data_dir @ ''/tokenizer.json'')) (\<lambda>tokenizer_path.
      io_try (download_file get (bge_url ''model.safetensors'') (data_dir @ ''/model.safetensors'')) (\<lambda>weights_path.
      io_try (fs_read_to_string config_path) (\<lambda>config_json.
      io_try (io_lift (map_err External (parse_config crates config_json))) (\<lambda>config.
      if hidden_size crates config = 0 then io_err BadHiddenSize
      else
        io_try (fs_read_bytes tokenizer_path) (\<lambda>tokenizer_bytes.
        io_try (io_lift (map_err External (tokenizer_from_file crates tokenizer_bytes))) (\<lambda>tokenizer.
        io_try (fs_read_bytes weights_path) (\<lambda>weights.
        io_try (io_lift (map_err External (mmap_safetensors crates weights))) (\<lambda>vb.
        io_try (io_lift (map_err External (build_model crates vb config))) (\<lambda>model.
        io_ok (model, pad_batch_longest crates tokenizer)))))))))))))"

section \<open>The flat buffer\<close>

text \<open>\<open>usize\<close> is 64 bits wide; \<open>checked_mul\<close> and \<open>checked_add\<close> return \<open>None\<close> on overflow.\<close>

record embedding_batch =
  batch_data :: "f32 list"
  batch_dim :: nat
  batch_count :: nat

definition checked_mul :: "nat \<Rightarrow> nat \<Rightarrow> nat option" where
  "checked_mul a b = (if a * b < 2 ^ 64 then Some (a * b) else None)"

definition checked_add :: "nat \<Rightarrow> nat \<Rightarrow> nat option" where
  "checked_add a b = (if a + b < 2 ^ 64 then Some (a + b) else None)"

text \<open>\<open>slice.get(start..end)\<close>.\<close>

definition slice_get :: "'a list \<Rightarrow> nat \<Rightarrow> nat \<Rightarrow> 'a list option" where
  "slice_get xs s e = (if s \<le> e \<and> e \<le> length xs then Some (take (e - s) (drop s xs)) else None)"

definition try_new :: "f32 list \<Rightarrow> nat \<Rightarrow> nat \<Rightarrow> embedding_batch result" where
  "try_new data width rows =
     (case checked_mul rows width of
        None \<Rightarrow> Inl DimensionOverflow
      | Some expected_len \<Rightarrow>
          if length data \<noteq> expected_len then Inl (LengthMismatch expected_len (length data))
          else Inr \<lparr>batch_data = data, batch_dim = width, batch_count = rows\<rparr>)"

definition batch_row :: "embedding_batch \<Rightarrow> nat \<Rightarrow> f32 list option" where
  "batch_row b idx =
     (if batch_count b \<le> idx \<or> batch_dim b = 0 then None
      else Option.bind (checked_mul idx (batch_dim b)) (\<lambda>s.
           Option.bind (checked_add s (batch_dim b)) (\<lambda>e.
           slice_get (batch_data b) s e)))"

definition into_vecs :: "embedding_batch \<Rightarrow> f32 list list" where
  "into_vecs b =
     (if batch_dim b = 0 then [] else List.map_filter (batch_row b) [0..<batch_count b])"

section \<open>Normalisation\<close>

text \<open>\<open>powi(2)\<close> is the product of the value with itself.\<close>

definition normalize_vector_slice :: "f32 list \<Rightarrow> f32 list" where
  "normalize_vector_slice v =
     (let max_abs = foldl (\<lambda>acc x. f32_max acc (f32_abs x)) f32_zero v in
      if f32_eq max_abs f32_zero \<or> \<not> is_finite max_abs then v
      else
        (let inv_max = f32_div f32_one max_abs;
             scaled_sum = f32_sum (map (\<lambda>x. f32_mul (f32_mul x inv_max) (f32_mul x inv_max)) v);
             norm = f32_mul max_abs (f32_sqrt scaled_sum)
         in if f32_le norm f32_min_positive \<or> \<not> is_finite norm then v
            else (let inv_norm = f32_div f32_one norm in map (\<lambda>x. f32_mul x inv_norm) v)))"

text \<open>\<open>chunks_exact_mut(dim)\<close>: whole chunks only, a shorter rest is left as it is.\<close>

function normalize_chunks :: "nat \<Rightarrow> f32 list \<Rightarrow> f32 list" where
  "normalize_chunks width xs =
     (if width = 0 \<or> length xs < width then xs
      else normalize_vector_slice (take width xs) @ normalize_chunks width (drop width xs))"
  by pat_completeness auto
termination
  by (relation "measure (\<lambda>(width, xs). length xs)") auto

declare normalize_chunks.simps [simp del]

section \<open>Embedding sentences\<close>

text \<open>The model's output is a tensor of shape batch, tokens, hidden, row-major. \<open>forward_ids\<close> stands
  for stacking the token ids, the zero type ids and \<open>BertModel::forward\<close>.\<close>

record tensor3 =
  shape_batch :: nat
  shape_tokens :: nat
  shape_hidden :: nat
  tensor_data :: "f32 list"

record bert =
  encode_batch :: "string list \<Rightarrow> string + nat list list"
  forward_ids :: "nat list list \<Rightarrow> string + tensor3"
  panic_text :: string

text \<open>\<open>embeddings.i((.., 0, ..))\<close> flattened: the first token of every sentence.\<close>

definition cls_flat :: "tensor3 \<Rightarrow> f32 list" where
  "cls_flat t =
     concat (map (\<lambda>i. take (shape_hidden t)
                        (drop (i * shape_tokens t * shape_hidden t) (tensor_data t)))
                 [0..<shape_batch t])"

definition embed_blocking :: "bert \<Rightarrow> string list \<Rightarrow> embedding_batch result" where
  "embed_blocking m sentences =
     try_res (map_err External (encode_batch m sentences)) (\<lambda>tokens.
     try_res (map_err External (forward_ids m tokens)) (\<lambda>t.
       if shape_tokens t = 0 then Inl (External ''index out of range'')
       else if shape_hidden t = 0 then Inl (External (panic_text m))
       else try_new (normalize_chunks (shape_hidden t) (cls_flat t)) (shape_hidden t)
              (length sentences)))"

definition get_embeddings_batch :: "env \<Rightarrow> bert \<Rightarrow> string list \<Rightarrow> embedding_batch result" where
  "get_embeddings_batch env m sentences =
     (let max_batch = env_usize env ''MAX_EMBEDDING_BATCH_SIZE'' 1024 in
      if max_batch < length sentences then Inl (BatchTooLarge (length sentences) max_batch)
      else if sentences = [] then try_new [] 768 0
      else embed_blocking m sentences)"

definition get_embeddings :: "env \<Rightarrow> bert \<Rightarrow> string list \<Rightarrow> f32 list list result" where
  "get_embeddings env m sentences =
     try_res (get_embeddings_batch env m sentences) (\<lambda>b. Inr (into_vecs b))"

section \<open>Facts on loading\<close>

lemma download_file_ok:
  assumes "download_file get url dest w = (Inr p, w')"
  shows "p = dest \<and> files w' dest \<noteq> None \<and> files w \<subseteq>\<^sub>m files w' \<and> faults w' = faults w"
  using assms
  by (auto simp: download_file_def fs_write_def io_simps map_le_def split: if_splits prod.splits
      sum.splits option.splits)

lemma download_file_present [simp]: "files w dest = Some b \<Longrightarrow> download_file get url dest w = (Inr dest, w)"
  by (simp add: download_file_def)

lemma fs_create_dir_all_ok: "fs_create_dir_all d w = (Inr u, w') \<longleftrightarrow> faults w d = None \<and> w' = w\<lparr>dirs := d # dirs w\<rparr>"
  by (auto simp: fs_create_dir_all_def split: option.splits)

lemma fs_read_bytes_ok: "fs_read_bytes p w = (Inr b, w') \<longleftrightarrow> files w p = Some b \<and> w' = w"
  by (auto simp: fs_read_bytes_def split: option.splits)

lemma fs_read_to_string_ok:
  "fs_read_to_string p w = (Inr b, w') \<longleftrightarrow> files w p = Some b \<and> utf8_valid b \<and> w' = w"
  by (auto simp: fs_read_to_string_def result_simps fs_read_bytes_ok io_ok_def io_err_def
      split: if_splits)

lemma io_lift_ok: "io_lift r w = (Inr x, w') \<longleftrightarrow> r = Inr x \<and> w' = w"
  by (auto simp: io_lift_def)

lemma io_ok_ok: "io_ok x w = (Inr y, w') \<longleftrightarrow> y = x \<and> w' = w"
  by (auto simp: io_ok_def)

lemmas fs_ok = fs_create_dir_all_ok fs_read_bytes_ok fs_read_to_string_ok io_lift_ok io_ok_ok

text \<open>What a successful load leaves on disk: the three files, from which the model is built.\<close>

definition model_on_disk ::
  "('cfg, 'tok, 'vb, 'mdl) model_crates \<Rightarrow> string \<Rightarrow> 'n host \<Rightarrow> 'mdl \<times> 'tok \<Rightarrow> bool" where
  "model_on_disk crates d w mt \<longleftrightarrow> faults w d = None \<and>
     (\<exists>cj cfg tj tok ws vb mdl. files w (d @ ''/config.json'') = Some cj \<and> utf8_valid cj \<and>
       files w (d @ ''/tokenizer.json'') = Some tj \<and> files w (d @ ''/model.safetensors'') = Some ws \<and>
       parse_config crates cj = Inr cfg \<and> hidden_size crates cfg \<noteq> 0 \<and>
       tokenizer_from_file crates tj = Inr tok \<and> mmap_safetensors crates ws = Inr vb \<and>
       build_model crates vb cfg = Inr mdl \<and> mt = (mdl, pad_batch_longest crates tok))"

lemma load_model_ok:
  assumes "load_model get crates env w = (Inr mt, w')"
  shows "model_on_disk crates (env_string env ''MODEL_CACHE_DIR'' ''data'') w' mt"
  using assms unfolding model_on_disk_def
  by (auto simp: load_model_def Let_def result_simps fs_ok io_err_def map_le_def dom_def
      split: if_splits dest!: download_file_ok)

lemma load_model_present:
  assumes "model_on_disk crates (env_string env ''MODEL_CACHE_DIR'' ''data'') w mt"
  shows "load_model get crates env w =
    (Inr mt, w\<lparr>dirs := env_string env ''MODEL_CACHE_DIR'' ''data'' # dirs w\<rparr>)"
  using assms
  by (auto simp: model_on_disk_def load_model_def Let_def io_simps fs_create_dir_all_def
      fs_read_to_string_def fs_read_bytes_def)

section \<open>Facts on the buffer\<close>

definition batch_ok :: "embedding_batch \<Rightarrow> bool" where
  "batch_ok b \<longleftrightarrow> length (batch_data b) = batch_count b * batch_dim b \<and>
     batch_count b * batch_dim b < 2 ^ 64"

lemma try_new_Inr:
  "try_new data width rows = Inr b \<longleftrightarrow>
     batch_ok b \<and> batch_data b = data \<and> batch_dim b = width \<and> batch_count b = rows"
  by (cases b) (auto simp: try_new_def checked_mul_def batch_ok_def split: if_splits)

lemma row_in_range:
  assumes "i < n"
  shows "i * w + w \<le> n * (w :: nat)"
proof -
  have "Suc i * w \<le> n * w" using assms by (intro mult_right_mono) simp_all
  then show ?thesis by simp
qed

lemma batch_row_eq:
  assumes "batch_ok b" "i < batch_count b" "0 < batch_dim b"
  shows "batch_row b i = Some (take (batch_dim b) (drop (i * batch_dim b) (batch_data b)))"
proof -
  have le: "i * batch_dim b + batch_dim b \<le> batch_count b * batch_dim b"
    using assms(2) by (rule row_in_range)
  moreover have "i * batch_dim b + batch_dim b < 2 ^ 64"
    using le assms(1) by (simp add: batch_ok_def)
  ultimately show ?thesis using assms
    by (simp add: batch_row_def checked_mul_def checked_add_def slice_get_def batch_ok_def)
qed

lemma into_vecs_eq:
  assumes "batch_ok b" "0 < batch_dim b"
  shows "into_vecs b =
    map (\<lambda>i. take (batch_dim b) (drop (i * batch_dim b) (batch_data b))) [0..<batch_count b]"
proof -
  have "List.map_filter (batch_row b) [0..<batch_count b] =
      map (the \<circ> batch_row b) [0..<batch_count b]"
    using batch_row_eq [OF assms(1) _ assms(2)]
    by (simp add: List.map_filter_def filter_id_conv)
  also have "\<dots> = map (\<lambda>i. take (batch_dim b) (drop (i * batch_dim b) (batch_data b)))
      [0..<batch_count b]"
    using batch_row_eq [OF assms(1) _ assms(2)] by (intro map_cong) simp_all
  finally show ?thesis using assms(2) by (simp add: into_vecs_def)
qed

lemma concat_windows:
  "length xs = n * w \<Longrightarrow> concat (map (\<lambda>i. take w (drop (i * w) xs)) [0..<n]) = xs"
proof (induction n arbitrary: xs)
  case 0
  then show ?case by simp
next
  case (Suc n)
  have "[0..<Suc n] = 0 # map Suc [0..<n]" by (simp add: upt_conv_Cons map_Suc_upt del: upt_Suc)
  then have "concat (map (\<lambda>i. take w (drop (i * w) xs)) [0..<Suc n]) =
      take w xs @ concat (map (\<lambda>i. take w (drop (i * w) (drop w xs))) [0..<n])"
    by (simp add: comp_def add.commute del: upt_Suc)
  also have "\<dots> = take w xs @ drop w xs"
    by (rule arg_cong [where f = "(@) (take w xs)"], rule Suc.IH) (use Suc.prems in simp)
  finally have "concat (map (\<lambda>i. take w (drop (i * w) xs)) [0..<Suc n]) = take w xs @ drop w xs" .
  then show ?case by (simp del: upt_Suc)
qed

lemma normalize_chunks_concat:
  "\<forall>x \<in> set xss. length x = w \<Longrightarrow> 0 < w \<Longrightarrow>
    normalize_chunks w (concat xss) = concat (map normalize_vector_slice xss)"
proof (induction xss)
  case Nil
  then show ?case by (simp add: normalize_chunks.simps)
next
  case (Cons x xss)
  then show ?case by (simp add: normalize_chunks.simps [of w "x @ concat xss"])
qed

lemma length_normalize [simp]: "length (normalize_vector_slice v) = length v"
  by (simp add: normalize_vector_slice_def Let_def)

lemma length_normalize_chunks [simp]: "length (normalize_chunks w xs) = length xs"
proof (induction w xs rule: normalize_chunks.induct)
  case (1 w xs)
  then show ?case by (subst normalize_chunks.simps) auto
qed

lemma try_new_empty [simp]: "try_new [] w 0 = Inr \<lparr>batch_data = [], batch_dim = w, batch_count = 0\<rparr>"
  by (simp add: try_new_def checked_mul_def)

lemma cls_window_length:
  assumes "i < b" "0 < s" "length xs = b * s * (h :: nat)"
  shows "length (take h (drop (i * s * h) xs)) = h"
proof -
  have "i * (s * h) + s * h \<le> b * (s * h)" using assms(1) by (rule row_in_range)
  moreover have "h \<le> s * h" using assms(2) by simp
  ultimately have "i * (s * h) + h \<le> b * (s * h)" by linarith
  then show ?thesis using assms(3) by (simp add: mult.assoc)
qed

lemma concat_into_vecs: "batch_ok b \<Longrightarrow> 0 < batch_dim b \<Longrightarrow> concat (into_vecs b) = batch_data b"
  by (simp add: into_vecs_eq concat_windows batch_ok_def)

lemma length_into_vecs: "batch_ok b \<Longrightarrow> 0 < batch_dim b \<Longrightarrow> length (into_vecs b) = batch_count b"
  by (simp add: into_vecs_eq)

lemma into_vecs_row_length:
  assumes "batch_ok b" "0 < batch_dim b" "r \<in> set (into_vecs b)"
  shows "length r = batch_dim b"
proof -
  from assms obtain i where i: "i < batch_count b"
    "r = take (batch_dim b) (drop (i * batch_dim b) (batch_data b))"
    by (auto simp: into_vecs_eq)
  have "i * batch_dim b + batch_dim b \<le> batch_count b * batch_dim b"
    using i(1) by (rule row_in_range)
  with i(2) assms(1) show ?thesis by (simp add: batch_ok_def)
qed

lemma into_vecs_concat:
  assumes "batch_ok b" "0 < batch_dim b" "batch_data b = concat xss"
    "length xss = batch_count b" "\<forall>x \<in> set xss. length x = batch_dim b"
  shows "into_vecs b = xss"
proof (rule concat_injective)
  show "concat (into_vecs b) = concat xss" using assms by (simp add: concat_into_vecs)
  show "length (into_vecs b) = length xss" using assms by (simp add: length_into_vecs)
  show "\<forall>(x, y) \<in> set (zip (into_vecs b) xss). length x = length y"
  proof clarify
    fix x y
    assume "(x, y) \<in> set (zip (into_vecs b) xss)"
    then have "x \<in> set (into_vecs b)" "y \<in> set xss"
      by (blast dest: set_zip_leftD set_zip_rightD)+
    then show "length x = length y" using assms(5) into_vecs_row_length [OF assms(1,2)] by simp
  qed
qed

lemma embed_blocking_rows:
  assumes "encode_batch m sentences = Inr toks" "forward_ids m toks = Inr t"
    "shape_batch t = length sentences"
    "length (tensor_data t) = shape_batch t * shape_tokens t * shape_hidden t"
    "0 < shape_tokens t" "0 < shape_hidden t" "length sentences * shape_hidden t < 2 ^ 64"
  shows "\<exists>b. embed_blocking m sentences = Inr b \<and> into_vecs b =
    map (\<lambda>i. normalize_vector_slice (take (shape_hidden t)
            (drop (i * shape_tokens t * shape_hidden t) (tensor_data t)))) [0..<length sentences]"
proof -
  define rows where "rows = map (\<lambda>i. take (shape_hidden t)
            (drop (i * shape_tokens t * shape_hidden t) (tensor_data t))) [0..<shape_batch t]"
  have len: "\<forall>r \<in> set rows. length r = shape_hidden t"
    using cls_window_length [OF _ assms(5) assms(4)] by (auto simp: rows_def)
  define vs where "vs = map normalize_vector_slice rows"
  define b where "b = \<lparr>batch_data = concat vs, batch_dim = shape_hidden t,
    batch_count = length sentences\<rparr>"
  have vs: "\<forall>v \<in> set vs. length v = shape_hidden t" "length vs = length sentences"
    using len by (auto simp: vs_def rows_def assms(3))
  have "length (concat vs) = length sentences * shape_hidden t"
    using vs by (simp add: length_concat sum_list_triv cong: map_cong)
  then have ok: "batch_ok b" using assms(7) by (simp add: batch_ok_def b_def)
  have "embed_blocking m sentences =
      try_new (normalize_chunks (shape_hidden t) (concat rows)) (shape_hidden t) (length sentences)"
    using assms by (simp add: embed_blocking_def cls_flat_def rows_def)
  also have "\<dots> = Inr b"
    unfolding normalize_chunks_concat [OF len assms(6)] try_new_Inr using ok
    by (simp add: b_def vs_def)
  finally have "embed_blocking m sentences = Inr b" .
  moreover have "into_vecs b = vs"
    using ok assms(6) vs by (intro into_vecs_concat) (simp_all add: b_def)
  ultimately show ?thesis by (simp add: vs_def rows_def assms(3) comp_def)
qed

lemma get_embeddings_rows:
  assumes "length sentences \<le> env_usize env ''MAX_EMBEDDING_BATCH_SIZE'' 1024"
    "encode_batch m sentences = Inr toks" "forward_ids m toks = Inr t"
    "shape_batch t = length sentences"
    "length (tensor_data t) = shape_batch t * shape_tokens t * shape_hidden t"
    "0 < shape_tokens t" "0 < shape_hidden t" "length sentences * shape_hidden t < 2 ^ 64"
  shows "get_embeddings env m sentences =
    Inr (map (\<lambda>i. normalize_vector_slice (take (shape_hidden t)
            (drop (i * shape_tokens t * shape_hidden t) (tensor_data t)))) [0..<length sentences])"
proof (cases "sentences = []")
  case True
  then show ?thesis
    by (simp add: get_embeddings_def get_embeddings_batch_def into_vecs_def Let_def List.map_filter_def)
next
  case False
  with assms(1) have "get_embeddings_batch env m sentences = embed_blocking m sentences"
    by (simp add: get_embeddings_batch_def Let_def)
  with embed_blocking_rows [OF assms(2-8)] show ?thesis
    by (elim exE conjE) (simp add: get_embeddings_def)
qed

text \<open>A model of the dimension of the table whose vectors are zero.\<close>

definition zero_bert :: bert where
  "zero_bert = \<lparr>encode_batch = (\<lambda>s. Inr (map (\<lambda>_. [0]) s)),
     forward_ids = (\<lambda>ids. Inr \<lparr>shape_batch = length ids, shape_tokens = 1, shape_hidden = 768,
        tensor_data = replicate (length ids * 768) f32_zero\<rparr>),
     panic_text = ''task panicked''\<rparr>"

lemma normalize_zero: "normalize_vector_slice (replicate n f32_zero) = replicate n f32_zero"
proof -
  have "f32_max f32_zero (f32_abs f32_zero) = f32_zero" by code_simp
  then have "foldl (\<lambda>acc x. f32_max acc (f32_abs x)) f32_zero (replicate n f32_zero) = f32_zero"
    by (induction n) simp_all
  moreover have "f32_eq f32_zero f32_zero" by code_simp
  ultimately show ?thesis by (simp add: normalize_vector_slice_def)
qed

lemma zero_bert_embeddings:
  assumes "length sentences \<le> 1024"
  shows "get_embeddings (\<lambda>_. None) zero_bert sentences =
    Inr (replicate (length sentences) (replicate 768 f32_zero))"
proof -
  define t where "t = \<lparr>shape_batch = length sentences, shape_tokens = 1, shape_hidden = 768,
        tensor_data = replicate (length sentences * 768) f32_zero\<rparr>"
  have "get_embeddings (\<lambda>_. None) zero_bert sentences =
    Inr (map (\<lambda>i. normalize_vector_slice (take (shape_hidden t)
            (drop (i * shape_tokens t * shape_hidden t) (tensor_data t)))) [0..<length sentences])"
    using assms
    by (intro get_embeddings_rows [of _ _ zero_bert "map (\<lambda>_. [0]) sentences"])
      (simp_all add: env_usize_def zero_bert_def t_def)
  also have "\<dots> = Inr (replicate (length sentences) (replicate 768 f32_zero))"
  proof -
    have "take 768 (drop (i * 768) (replicate (length sentences * 768) f32_zero)) = replicate 768 f32_zero"
      if "i < length sentences" for i
      using row_in_range [OF that, of 768] by (simp add: min_def)
    then have "map (\<lambda>i. normalize_vector_slice (take 768
          (drop (i * 768) (replicate (length sentences * 768) f32_zero)))) [0..<length sentences] =
        map (\<lambda>_. replicate 768 f32_zero) [0..<length sentences]"
      by (intro map_cong) (simp_all add: normalize_zero)
    also have "\<dots> = replicate (length sentences) (replicate 768 f32_zero)"
      by (simp add: map_replicate_const)
    finally show ?thesis by (simp add: t_def)
  qed
  finally show ?thesis .
qed

text \<open>The two stages of the normalisation: the largest magnitude of the slice, and the sum of the
  squares scaled by it, which is at least about one quarter.\<close>

abbreviation max_magnitude :: "f32 list \<Rightarrow> f32" where
  "max_magnitude v \<equiv> foldl (\<lambda>acc x. f32_max acc (f32_abs x)) f32_zero v"

lemma max_magnitude_props:
  assumes "\<forall>x \<in> set v. is_finite x" "\<not> f32_eq (max_magnitude v) f32_zero"
  shows "pos_num (max_magnitude v)" "0 < f32_val (max_magnitude v)"
    "\<forall>x \<in> set v. f32_abs x \<le> max_magnitude v" "\<exists>x0 \<in> set v. max_magnitude v = f32_abs x0"
proof -
  let ?mx = "max_magnitude v"
  have fold: "?mx = foldl f32_max f32_zero (map f32_abs v)" by (simp add: foldl_map)
  have "\<forall>a \<in> set (map f32_abs v). pos_num a" using assms(1) pos_num_abs by auto
  from max_abs_fold [OF this pos_num_zero]
  have mem: "?mx \<in> insert f32_zero (f32_abs ` set v)" and mxp: "pos_num ?mx"
    and ub: "\<forall>x \<in> set v. f32_abs x \<le> ?mx"
    by (simp_all add: fold)
  have "f32_val ?mx \<noteq> 0"
    using assms(2) mxp inf_mag_pos
    by (auto simp: f32_eq_def pos_num_def is_finite_def is_nan_def not_less)
  then have pos: "0 < f32_val ?mx" using pos_num_val_nonneg [OF mxp] by linarith
  then have "?mx \<noteq> f32_zero" by auto
  with mem have "\<exists>x0 \<in> set v. ?mx = f32_abs x0" by blast
  then show "pos_num ?mx" "0 < f32_val ?mx" "\<forall>x \<in> set v. f32_abs x \<le> ?mx"
    "\<exists>x0 \<in> set v. ?mx = f32_abs x0"
    using mxp pos ub by simp_all
qed

lemma scaled_squares:
  fixes inv :: f32
  assumes "x0 \<in> set v" "2 ^ 148 \<le> mag_val (f32_mag (f32_mul x0 inv))"
  defines "sq \<equiv> map (\<lambda>x. f32_mul (f32_mul x inv) (f32_mul x inv)) v"
  shows "is_nan (f32_sum sq) \<or> pos_num (f32_sum sq) \<and> 2 ^ 147 \<le> f32_val (f32_sum sq)"
proof (cases "\<exists>x \<in> set v. is_nan (f32_mul x inv)")
  case True
  then obtain x where "x \<in> set v" "is_nan (f32_mul x inv)" by blast
  then have "f32_mul (f32_mul x inv) (f32_mul x inv) \<in> set sq"
    "is_nan (f32_mul (f32_mul x inv) (f32_mul x inv))"
    by (auto simp: sq_def f32_mul_def)
  then show ?thesis using f32_sum_nan by blast
next
  case False
  let ?t = "f32_mul x0 inv"
  have all: "\<forall>y \<in> set sq. pos_num y" using False by (auto simp: sq_def intro: pos_num_square)
  have tin: "f32_mul ?t ?t \<in> set sq" using assms(1) by (auto simp: sq_def)
  have nn: "\<not> is_nan ?t" using False assms(1) by simp
  have s: "pos_num (f32_sum sq)" "f32_mul ?t ?t \<le> f32_sum sq" using f32_sum_ge [OF all tin] by simp_all
  then have "f32_val (f32_mul ?t ?t) \<le> f32_val (f32_sum sq)"
    using pos_num_le_val [of "f32_mul ?t ?t"] all tin by blast
  then show ?thesis using s(1) square_ge_quarter [OF nn assms(2)] by linarith
qed

lemma normal_norm:
  assumes "\<not> f32_le nrm f32_min_positive" "is_finite nrm"
  shows "2 ^ 23 < f32_val nrm" "pos_num nrm"
proof -
  have "f32_val f32_min_positive = 2 ^ 23" "\<not> is_nan f32_min_positive"
    by (simp_all add: f32_min_positive_def f32_val_def f32_sign_def f32_mag_def mag_val_def is_nan_def inf_mag_def)
  then show n23: "2 ^ 23 < f32_val nrm"
    using assms by (auto simp: f32_le_def is_nan_def is_finite_def)
  then have "\<not> f32_sign nrm" using mag_val_nonneg [of "f32_mag nrm"] mag_range [of nrm]
    by (auto simp: f32_val_def split: if_splits)
  then show "pos_num nrm" using assms(2) by (auto simp: pos_num_def is_nan_def is_finite_def)
qed

section \<open>Properties\<close>

text \<open>C35: A buffer accepted by \<open>try_new\<close> gives back its data: \<open>into_vecs\<close> has \<open>count\<close> rows of
  length \<open>dim\<close> whose concatenation is the data, and \<open>row\<close> returns exactly these rows, none out of
  range; no index computation overflows.\<close>

theorem batch_roundtrip:
  assumes "try_new data width n = Inr b" "0 < width"
  shows "length (into_vecs b) = n \<and> (\<forall>r \<in> set (into_vecs b). length r = width) \<and>
    concat (into_vecs b) = data \<and>
    (\<forall>i. batch_row b i = (if i < n then Some (into_vecs b ! i) else None))"
proof -
  from assms have b: "batch_ok b" "batch_data b = data" "batch_dim b = width" "batch_count b = n"
    by (simp_all add: try_new_Inr)
  have "batch_row b i = (if i < n then Some (into_vecs b ! i) else None)" for i
    using batch_row_eq [OF b(1), of i] into_vecs_eq [OF b(1)] b(3,4) assms(2)
    by (simp add: batch_row_def)
  with b assms(2) show ?thesis
    by (simp add: concat_into_vecs length_into_vecs into_vecs_row_length)
qed

theorem batch_roundtrip_witness:
  "\<exists>b. try_new [f32_one, f32_zero, f32_minus_one, f32_one] 2 2 = Inr b \<and>
    concat (into_vecs b) = [f32_one, f32_zero, f32_minus_one, f32_one] \<and> batch_row b 2 = None"
  using batch_roundtrip [of "[f32_one, f32_zero, f32_minus_one, f32_one]" 2 2]
  by (auto simp: try_new_def checked_mul_def)

text \<open>C36: Embedding a batch succeeds when the batch is within the configured limit and the model
  returns one row of token vectors per sentence, and then returns, in order, one vector per
  sentence: the normalised vector of the sentence's first token.\<close>

theorem embeddings_rows:
  assumes "length sentences \<le> env_usize env ''MAX_EMBEDDING_BATCH_SIZE'' 1024"
    "encode_batch m sentences = Inr toks" "forward_ids m toks = Inr t"
    "shape_batch t = length sentences"
    "length (tensor_data t) = shape_batch t * shape_tokens t * shape_hidden t"
    "0 < shape_tokens t" "0 < shape_hidden t" "length sentences * shape_hidden t < 2 ^ 64"
  shows "get_embeddings env m sentences =
    Inr (map (\<lambda>i. normalize_vector_slice (take (shape_hidden t)
            (drop (i * shape_tokens t * shape_hidden t) (tensor_data t)))) [0..<length sentences])"
  using assms by (rule get_embeddings_rows)

definition toy_bert :: bert where
  "toy_bert = \<lparr>encode_batch = (\<lambda>s. Inr (map (\<lambda>x. [length x, 0]) s)),
    forward_ids = (\<lambda>ids. Inr \<lparr>shape_batch = length ids, shape_tokens = 2, shape_hidden = 2,
       tensor_data = concat (map (\<lambda>_. [F32 0x40400000, F32 0x40800000, f32_one, f32_one]) ids)\<rparr>),
    panic_text = ''task panicked''\<rparr>"

lemma toy_embedding:
  "get_embeddings (\<lambda>_. None) toy_bert [x] = Inr [[F32 0x3F19999A, F32 0x3F4CCCCD]]"
proof -
  have "normalize_chunks 2 [F32 0x40400000, F32 0x40800000] = [F32 0x3F19999A, F32 0x3F4CCCCD]"
    by code_simp
  then show ?thesis
    by (simp add: get_embeddings_def get_embeddings_batch_def env_usize_def embed_blocking_def toy_bert_def
        cls_flat_def try_new_def checked_mul_def into_vecs_def List.map_filter_def batch_row_def
        checked_add_def slice_get_def)
qed

theorem embeddings_rows_witness:
  "get_embeddings (\<lambda>_. None) toy_bert [''a'', ''b''] =
     Inr [[F32 0x3F19999A, F32 0x3F4CCCCD], [F32 0x3F19999A, F32 0x3F4CCCCD]]"
proof -
  define t where "t = \<lparr>shape_batch = 2, shape_tokens = 2, shape_hidden = 2,
       tensor_data = [F32 0x40400000, F32 0x40800000, f32_one, f32_one,
                      F32 0x40400000, F32 0x40800000, f32_one, f32_one]\<rparr>"
  have "get_embeddings (\<lambda>_. None) toy_bert [''a'', ''b''] =
    Inr (map (\<lambda>i. normalize_vector_slice (take (shape_hidden t)
            (drop (i * shape_tokens t * shape_hidden t) (tensor_data t)))) [0..<length [''a'', ''b'']])"
    by (rule embeddings_rows [of _ _ toy_bert "[[1, 0], [1, 0]]" t])
      (simp_all add: env_usize_def toy_bert_def t_def)
  also have "\<dots> = Inr (map normalize_vector_slice
      [[F32 0x40400000, F32 0x40800000], [F32 0x40400000, F32 0x40800000]])"
    by (simp add: t_def upt_rec)
  also have "\<dots> = Inr [[F32 0x3F19999A, F32 0x3F4CCCCD], [F32 0x3F19999A, F32 0x3F4CCCCD]]"
    by code_simp
  finally show ?thesis .
qed

text \<open>Whatever the model returns, a batch that comes back holds one row per sentence within the
  configured limit, and its buffer has exactly rows times dimension values without overflow.\<close>

theorem embeddings_batch_invariant:
  assumes "get_embeddings_batch env m sentences = Inr b"
  shows "length sentences \<le> env_usize env ''MAX_EMBEDDING_BATCH_SIZE'' 1024 \<and>
    batch_count b = length sentences \<and> batch_ok b \<and> 0 < batch_dim b"
  using assms
  by (auto simp: get_embeddings_batch_def embed_blocking_def Let_def result_simps try_new_Inr
      batch_ok_def split: if_splits)

theorem embeddings_batch_invariant_witness:
  "\<exists>b. get_embeddings_batch (\<lambda>_. Some ''1'') toy_bert [''a''] = Inr b \<and> batch_count b = 1"
proof -
  have "env_usize (\<lambda>_. Some (show_nat 1)) ''MAX_EMBEDDING_BATCH_SIZE'' 1024 = 1"
    by (rule env_usize_set) simp_all
  moreover have "show_nat 1 = ''1''" by code_simp
  ultimately have "get_embeddings_batch (\<lambda>_. Some ''1'') toy_bert [''a''] = embed_blocking toy_bert [''a'']"
    by (simp add: get_embeddings_batch_def)
  moreover have "\<exists>b. embed_blocking toy_bert [''a''] = Inr b"
    by (simp add: embed_blocking_def toy_bert_def cls_flat_def try_new_def checked_mul_def)
  ultimately obtain b where b: "get_embeddings_batch (\<lambda>_. Some ''1'') toy_bert [''a''] = Inr b"
    by auto
  from embeddings_batch_invariant [OF b] b show ?thesis by auto
qed

text \<open>C37: Normalising a finite vector never produces an infinity or a NaN: either the slice is left
  as it is (a zero vector, or a norm that overflows or underflows), or every component becomes finite
  with a magnitude of at most 8 whatever the scale of the input; signs are kept.\<close>

theorem normalize_bounded:
  assumes "\<forall>x \<in> set v. is_finite x"
  shows "(\<forall>y \<in> set (normalize_vector_slice v). is_finite y) \<and>
    map f32_sign (normalize_vector_slice v) = map f32_sign v \<and>
    (normalize_vector_slice v = v \<or>
     (\<forall>y \<in> set (normalize_vector_slice v). f32_abs y \<le> f32_eight))"
proof (cases "normalize_vector_slice v = v")
  case True
  then show ?thesis using assms by simp
next
  case False
  define mx where "mx = max_magnitude v"
  define inv where "inv = f32_div f32_one mx"
  define sq where "sq = map (\<lambda>x. f32_mul (f32_mul x inv) (f32_mul x inv)) v"
  define nrm where "nrm = f32_mul mx (f32_sqrt (f32_sum sq))"
  have mx: "\<not> f32_eq mx f32_zero" "is_finite mx"
    and nrm: "\<not> f32_le nrm f32_min_positive" "is_finite nrm"
    and out: "normalize_vector_slice v = map (\<lambda>x. f32_mul x (f32_div f32_one nrm)) v"
    using False
    by (auto simp: normalize_vector_slice_def Let_def split: if_splits
        simp flip: mx_def inv_def sq_def nrm_def)
  note largest = max_magnitude_props [OF assms mx(1) [unfolded mx_def], folded mx_def]
  obtain x0 where x0: "x0 \<in> set v" "mx = f32_abs x0" using largest(4) by blast
  then have fin0: "is_finite x0" using assms by blast
  have half: "2 ^ 148 \<le> mag_val (f32_mag (f32_mul x0 inv))"
    using largest(2) by (intro scaled_ge_half [OF fin0]) (simp_all add: inv_def x0(2) f32_val_abs [OF fin0])
  note n = normal_norm [OF nrm]
  have le4: "f32_val mx \<le> 4 * f32_val nrm"
    by (rule norm_lower [OF largest(1) mx(2) largest(2) scaled_squares [OF x0(1) half] nrm_def [unfolded sq_def]
        nrm(2) n(1)])
  have "\<bar>f32_val x\<bar> \<le> 4 * f32_val nrm" if "x \<in> set v" for x
  proof -
    have f: "is_finite x" using that assms by blast
    have "f32_val (f32_abs x) \<le> f32_val mx"
      using largest(3) that pos_num_le_val [OF pos_num_abs [OF f] largest(1)] by blast
    then show ?thesis using le4 by (simp add: f32_val_abs [OF f])
  qed
  then have "\<forall>x \<in> set v. is_finite (f32_mul x (f32_div f32_one nrm)) \<and>
      f32_abs (f32_mul x (f32_div f32_one nrm)) \<le> f32_eight \<and>
      f32_sign (f32_mul x (f32_div f32_one nrm)) = f32_sign x"
    using assms component_bound [OF _ _ n(2) nrm(2) n(1)] by blast
  then show ?thesis by (auto simp: out)
qed

theorem normalize_bounded_witness:
  "normalize_vector_slice [F32 0x7F7FFFFF, f32_minus_one] \<noteq> [F32 0x7F7FFFFF, f32_minus_one] \<and>
   list_all is_finite (normalize_vector_slice [F32 0x7F7FFFFF, f32_minus_one])"
proof -
  have "\<forall>x \<in> set [F32 0x7F7FFFFF, f32_minus_one]. is_finite x"
    "normalize_vector_slice [F32 0x7F7FFFFF, f32_minus_one] \<noteq> [F32 0x7F7FFFFF, f32_minus_one]"
    by code_simp+
  with normalize_bounded [OF this(1)] show ?thesis unfolding list_all_iff by blast
qed

text \<open>C38: Loading the embedding model caches its files: after a load that succeeded, loading again
  needs no network at all (whatever the network would answer, its state is untouched), changes no
  file and gives the same model and tokenizer.\<close>

theorem load_model_offline:
  assumes "load_model get crates env w = (Inr mt, w')"
  shows "\<exists>ds. load_model get' crates env (w'\<lparr>net := n\<rparr>) = (Inr mt, w'\<lparr>net := n, dirs := ds\<rparr>)"
proof -
  have "model_on_disk crates (env_string env ''MODEL_CACHE_DIR'' ''data'') (w'\<lparr>net := n\<rparr>) mt"
    using load_model_ok [OF assms] by (simp add: model_on_disk_def)
  from load_model_present [OF this] show ?thesis by auto
qed

text \<open>Scaling by the largest component does not make the routine immune to range errors: where its
  reciprocal or the norm itself leaves the finite range, the slice comes back as it was.\<close>

lemma normalize_not_immune:
  "normalize_vector_slice [F32 1, F32 1] = [F32 1, F32 1]"
  "normalize_vector_slice [F32 0x7F7FFFFF, F32 0x7F7FFFFF] = [F32 0x7F7FFFFF, F32 0x7F7FFFFF]"
  by code_simp+

definition toy_crates :: "(nat, string, string, string) model_crates" where
  "toy_crates = \<lparr>parse_config = (\<lambda>s. if s = [] then Inl ''EOF'' else Inr (length s)),
     hidden_size = (\<lambda>n. n), tokenizer_from_file = Inr, pad_batch_longest = (\<lambda>t. t),
     mmap_safetensors = Inr, build_model = (\<lambda>vb n. Inr vb)\<rparr>"

definition toy_get :: "nat http_get" where
  "toy_get url n = (Inr ''bytes'', n + 1)"

definition empty_host :: "nat host" where
  "empty_host = \<lparr>files = (\<lambda>_. None), dirs = [], faults = (\<lambda>_. None), net = 0\<rparr>"

theorem load_model_offline_witness:
  "\<exists>w'. load_model toy_get toy_crates (\<lambda>_. None) empty_host = (Inr (''bytes'', ''bytes''), w') \<and>
     net w' = 3 \<and>
     (\<exists>ds. load_model (\<lambda>url n. (Inl ''offline'', n + 1)) toy_crates (\<lambda>_. None) (w'\<lparr>net := 7\<rparr>) =
        (Inr (''bytes'', ''bytes''), w'\<lparr>net := 7, dirs := ds\<rparr>))"
proof -
  define w' where "w' = snd (load_model toy_get toy_crates (\<lambda>_. None) empty_host)"
  have "fst (load_model toy_get toy_crates (\<lambda>_. None) empty_host) = Inr (''bytes'', ''bytes'')"
    "net w' = 3"
    unfolding w'_def by code_simp+
  then have run: "load_model toy_get toy_crates (\<lambda>_. None) empty_host = (Inr (''bytes'', ''bytes''), w')"
    "net w' = 3"
    by (simp_all add: w'_def prod_eq_iff)
  show ?thesis
    by (intro exI [of _ w'] conjI run) (rule load_model_offline [OF run(1)])
qed

end
