(* ===== verification/Rerank.thy ===== *)
theory Rerank
  imports Embeddings
begin

text \<open>
  \<open>src/engines/rerank.rs\<close>: the second-stage ranking of candidates by cross-encoder scores. The
  tokenizer and the XLM-RoBERTa model are parameters: \<open>encode\<close> batches the (query, passage) pairs,
  \<open>forward\<close> turns the encodings into logits. Candidates are pairs of a key and a passage.
\<close>

section \<open>Operations\<close>

record 'enc cross_encoder =
  encode_pairs :: "(string \<times> string) list \<Rightarrow> string + 'enc list"
  forward_pairs :: "'enc list \<Rightarrow> string + f32 list"

definition score_pairs :: "'enc cross_encoder \<Rightarrow> string \<Rightarrow> string list \<Rightarrow> f32 list result" where
  "score_pairs ce query passages =
     (if passages = [] then Inr []
      else try_res (map_err External (encode_pairs ce (map (\<lambda>p. (query, p)) passages)))
             (\<lambda>encodings. map_err External (forward_pairs ce encodings)))"

text \<open>\<open>score_b.total_cmp(score_a)\<close> is not \<open>Greater\<close>: descending in the total order.\<close>

definition score_desc :: "'c \<times> f32 \<Rightarrow> 'c \<times> f32 \<Rightarrow> bool" where
  "score_desc a b \<longleftrightarrow> snd b \<le> snd a"

definition rerank_by_scores :: "('k \<times> string) list \<Rightarrow> f32 list \<Rightarrow> nat \<Rightarrow> ('k \<times> string) list" where
  "rerank_by_scores candidates scores top_k =
     map fst (take top_k (sort_by score_desc (zip candidates scores)))"

definition rerank_candidates_with_scorer ::
  "('k \<times> string) list \<Rightarrow> string \<Rightarrow> nat \<Rightarrow> (string \<Rightarrow> string list \<Rightarrow> f32 list result)
     \<Rightarrow> ('k \<times> string) list result" where
  "rerank_candidates_with_scorer candidates query top_k scorer =
     (if candidates = [] \<or> top_k = 0 then Inr []
      else try_res (scorer query (map snd candidates))
             (\<lambda>scores. if length scores \<noteq> length candidates
                then Inl (ScorerMismatch (length scores) (length candidates))
                else Inr (rerank_by_scores candidates scores top_k)))"

definition rerank ::
  "'enc cross_encoder \<Rightarrow> string \<Rightarrow> ('k \<times> string) list \<Rightarrow> nat \<Rightarrow> ('k \<times> string) list result" where
  "rerank ce query candidates top_k =
     rerank_candidates_with_scorer candidates query top_k (score_pairs ce)"

interpretation desc: comparator score_desc
  by unfold_locales (auto simp: score_desc_def)

section \<open>Loading the model\<close>

definition reranker_url :: "string \<Rightarrow> string" where
  "reranker_url f = ''https://huggingface.co/BAAI/bge-reranker-base/resolve/main/'' @ f"

definition load_cross_encoder ::
  "'n http_get \<Rightarrow> ('cfg, 'tok, 'vb, 'mdl) model_crates \<Rightarrow> env \<Rightarrow> ('n host, err, 'mdl \<times> 'tok) io" where
  "load_cross_encoder get crates env =
     (let d = env_string env ''RERANKER_MODEL_DIR'' ''data/reranker'' in
      io_try (fs_create_dir_all d) (\<lambda>_.
      io_try (download_file get (reranker_url ''config.json'') (d @ ''/config.json'')) (\<lambda>config_path.
      io_try (download_file get (reranker_url ''tokenizer.json'') (d @ ''/tokenizer.json'')) (\<lambda>tokenizer_path.
      io_try (download_file get (reranker_url ''model.safetensors'') (d @ ''/model.safetensors'')) (\<lambda>weights_path.
      io_try (fs_read_to_string config_path) (\<lambda>config_json.
      io_try (io_lift (map_err External (parse_config crates config_json))) (\<lambda>config.
      io_try (fs_read_bytes tokenizer_path) (\<lambda>tokenizer_bytes.
      io_try (io_lift (map_err External (tokenizer_from_file crates tokenizer_bytes))) (\<lambda>tokenizer.
      io_try (fs_read_bytes weights_path) (\<lambda>weights.
      io_try (io_lift (map_err External (mmap_safetensors crates weights))) (\<lambda>vb.
      io_try (io_lift (map_err External (build_model crates vb config))) (\<lambda>mdl.
      io_ok (mdl, pad_batch_longest crates tokenizer)))))))))))))"

section \<open>Facts\<close>

lemma rerank_subset: "set (rerank_by_scores candidates scores k) \<subseteq> set candidates"
proof -
  have "set (take k (sort_by score_desc (zip candidates scores))) \<subseteq> set (zip candidates scores)"
    using set_take_subset [of k "sort_by score_desc (zip candidates scores)"] by simp
  then have "fst ` set (take k (sort_by score_desc (zip candidates scores)))
      \<subseteq> fst ` set (zip candidates scores)"
    by (rule image_mono)
  also have "\<dots> \<subseteq> set candidates" by (auto dest: set_zip_leftD)
  finally show ?thesis by (simp add: rerank_by_scores_def)
qed

lemma rerank_candidates_subset:
  "rerank_candidates_with_scorer cs q k scorer = Inr res \<Longrightarrow> set res \<subseteq> set cs"
  using rerank_subset by (auto simp: rerank_candidates_with_scorer_def result_simps split: if_splits)

section \<open>Properties\<close>

text \<open>C31: A successful re-ranking returns the top of the candidates: as many as asked for or as there
  are, ordered by descending score, and no candidate left out scores higher than one returned.\<close>

theorem rerank_top_k:
  assumes "rerank_candidates_with_scorer candidates query top_k scorer = Inr res"
    and "scorer query (map snd candidates) = Inr scores" "0 < top_k"
  shows "\<exists>kept dropped. map fst kept = res \<and> length kept = min top_k (length candidates) \<and>
    mset (kept @ dropped) = mset (zip candidates scores) \<and> sorted_wrt score_desc (kept @ dropped)"
proof (cases "candidates = []")
  case True
  with assms show ?thesis
    by (intro exI [of _ "[]"]) (auto simp: rerank_candidates_with_scorer_def)
next
  case False
  let ?sorted = "sort_by score_desc (zip candidates scores)"
  from assms False have len: "length scores = length candidates"
    and res: "res = map fst (take top_k ?sorted)"
    by (auto simp: rerank_candidates_with_scorer_def rerank_by_scores_def split: if_splits)
  show ?thesis
    by (intro exI [of _ "take top_k ?sorted"] exI [of _ "drop top_k ?sorted"])
      (simp add: res len desc.sorted_sort_by del: mset_append)
qed

theorem rerank_top_k_witness:
  "\<exists>kept dropped. map fst kept = [(2 :: nat, ''high''), (3, ''mid'')] \<and> length kept = 2 \<and>
     mset (kept @ dropped) = mset (zip [(1, ''low''), (2, ''high''), (3, ''mid'')]
       [F32 0xBFC00000, F32 0x4099999A, F32 0x3F99999A]) \<and>
     sorted_wrt score_desc (kept @ dropped)"
proof -
  have "rerank_candidates_with_scorer [(1 :: nat, ''low''), (2, ''high''), (3, ''mid'')] ''q'' 2
      (\<lambda>_ _. Inr [F32 0xBFC00000, F32 0x4099999A, F32 0x3F99999A]) =
      Inr [(2, ''high''), (3, ''mid'')]"
    by code_simp
  from rerank_top_k [OF this refl] show ?thesis by (simp add: numeral_2_eq_2)
qed

text \<open>The sort is stable: candidates with the same score are returned in the order they were
  retrieved in.\<close>

theorem rerank_stable:
  assumes "length scores = length candidates"
  shows "filter (\<lambda>p. snd p = s) (sort_by score_desc (zip candidates scores)) =
      filter (\<lambda>p. snd p = s) (zip candidates scores) \<and>
    rerank_by_scores candidates scores (length candidates) =
      map fst (sort_by score_desc (zip candidates scores))"
  using assms by (auto simp: rerank_by_scores_def score_desc_def intro: desc.stable_sort_by)

theorem rerank_stable_witness:
  "filter (\<lambda>p. snd p = f32_one) (sort_by score_desc (zip [(1 :: nat, ''a''), (2, ''b''), (3, ''c'')]
     [f32_one, f32_zero, f32_one])) = [((1, ''a''), f32_one), ((3, ''c''), f32_one)]"
  using rerank_stable [of "[f32_one, f32_zero, f32_one]" "[(1 :: nat, ''a''), (2, ''b''), (3, ''c'')]" f32_one]
  by (simp add: f32_one_def f32_zero_def)

text \<open>The error branches: without candidates or with \<open>top_k = 0\<close> the scorer is not consulted;
  otherwise its error is passed on and a wrong number of scores is an error.\<close>

theorem rerank_errors:
  "rerank_candidates_with_scorer candidates query top_k scorer =
     (if candidates = [] \<or> top_k = 0 then Inr []
      else case scorer query (map snd candidates) of
        Inl e \<Rightarrow> Inl e
      | Inr scores \<Rightarrow>
          if length scores = length candidates
          then Inr (map fst (take top_k (sort_by score_desc (zip candidates scores))))
          else Inl (ScorerMismatch (length scores) (length candidates)))"
  by (simp add: rerank_candidates_with_scorer_def rerank_by_scores_def split: sum.split)

end
