(* ===== verification/Sql_Engine.thy ===== *)
theory Sql_Engine
  imports Types
begin

text \<open>
  \<open>src/engines/ast_guard.rs\<close> and \<open>src/engines/sql.rs\<close>: the gate every SQL text passes before it
  reaches the engine, the row limit, and the rendering of result batches as JSON lines. The SQL
  parser, the DataFusion session and Arrow's JSON encoder are parameters.
\<close>

section \<open>The gate\<close>

text \<open>The parser's statements, as far as the gate looks at them.\<close>

datatype ('q, 'o) statement = Query 'q | Other_Statement 'o

type_synonym ('q, 'o) sql_parser = "string \<Rightarrow> string + ('q, 'o) statement list"

definition validate_sql_is_safe :: "('q, 'o) sql_parser \<Rightarrow> string \<Rightarrow> unit result" where
  "validate_sql_is_safe parse_sql query =
     try_res (map_err ParseSqlFailed (parse_sql query)) (\<lambda>ast.
       if ast = [] then Inl NoStatements
       else if 1 < length ast then Inl MultipleStatements
       else (case hd ast of Query _ \<Rightarrow> Inr () | Other_Statement _ \<Rightarrow> Inl NotASelect))"

section \<open>Running a query\<close>

record ('w, 'p, 'b) datafusion =
  register_csv :: "string \<Rightarrow> string \<Rightarrow> ('w, err, unit) io"
  ctx_sql :: "string \<Rightarrow> ('w, err, 'p) io"
  df_limit :: "nat \<Rightarrow> nat option \<Rightarrow> 'p \<Rightarrow> 'p result"
  df_collect :: "'p \<Rightarrow> ('w, err, 'b list) io"

definition init_datafusion :: "('w, 'p, 'b) datafusion \<Rightarrow> env \<Rightarrow> ('w, err, unit) io" where
  "init_datafusion engine env =
     register_csv engine ''kna1'' (env_string env ''CSV_PATH'' ''data/kna1.csv'')"

definition max_sql_rows :: "env \<Rightarrow> nat" where
  "max_sql_rows env = env_usize env ''MAX_SQL_ROWS'' 10000"

definition execute_sql_query ::
  "('q, 'o) sql_parser \<Rightarrow> ('w, 'p, 'b) datafusion \<Rightarrow> env \<Rightarrow> string \<Rightarrow> ('w, err, 'b list) io" where
  "execute_sql_query parse_sql engine env query =
     io_try (io_lift (validate_sql_is_safe parse_sql query)) (\<lambda>_.
     io_try (ctx_sql engine query) (\<lambda>df.
     io_try (io_lift (df_limit engine 0 (Some (max_sql_rows env)) df)) (\<lambda>limited.
     df_collect engine limited)))"

section \<open>JSON lines\<close>

text \<open>Arrow's encoder gives the JSON text of every row of a batch; the line-delimited writer appends
  each text and a line feed, batch by batch. \<open>write_all\<close> is the destination's
  \<open>std::io::Write\<close>.\<close>

record 'b arrow =
  num_rows :: "'b \<Rightarrow> nat"
  encode_rows :: "'b \<Rightarrow> string + string list"

definition json_lines :: "string list \<Rightarrow> string" where
  "json_lines rows = concat (map (\<lambda>r. r @ [nl]) rows)"

fun write_record_batches_as_json_lines ::
  "'b arrow \<Rightarrow> (string \<Rightarrow> ('s, err, unit) io) \<Rightarrow> 'b list \<Rightarrow> ('s, err, unit) io" where
  "write_record_batches_as_json_lines arr write_all [] = io_ok ()"
| "write_record_batches_as_json_lines arr write_all (b # batches) =
     io_try (io_lift (map_err External (encode_rows arr b))) (\<lambda>rows.
     io_try (write_all (json_lines rows)) (\<lambda>_.
     write_record_batches_as_json_lines arr write_all batches))"

text \<open>Writing into a \<open>Vec<u8>\<close> appends and never fails.\<close>

definition vec_write :: "string \<Rightarrow> (string, err, unit) io" where
  "vec_write bytes buffer = (Inr (), buffer @ bytes)"

definition record_batches_to_json_lines :: "'b arrow \<Rightarrow> 'b list \<Rightarrow> string list result" where
  "record_batches_to_json_lines arr batches =
     (case write_record_batches_as_json_lines arr vec_write batches [] of
        (Inl e, _) \<Rightarrow> Inl e
      | (Inr _, buffer) \<Rightarrow>
          if utf8_valid buffer
          then Inr (filter (\<lambda>l. l \<noteq> []) (map trim (str_lines buffer)))
          else Inl (External ''invalid utf-8 sequence''))"

section \<open>Facts\<close>

lemma validate_ok_iff:
  "validate_sql_is_safe parse_sql query = Inr () \<longleftrightarrow> (\<exists>q. parse_sql query = Inr [Query q])"
proof (cases "parse_sql query")
  case (Inl m)
  then show ?thesis by (simp add: validate_sql_is_safe_def)
next
  case (Inr ast)
  then show ?thesis
    by (cases ast rule: remdups_adj.cases) (auto simp: validate_sql_is_safe_def split: statement.split)
qed

lemma execute_rejected:
  "validate_sql_is_safe parse_sql query = Inl e \<Longrightarrow>
    execute_sql_query parse_sql engine env query w = (Inl e, w)"
  by (simp add: execute_sql_query_def io_lift_def io_try_def)

lemma execute_accepted:
  "validate_sql_is_safe parse_sql query = Inr () \<Longrightarrow>
    execute_sql_query parse_sql engine env query w =
      io_try (ctx_sql engine query) (\<lambda>df.
      io_try (io_lift (df_limit engine 0 (Some (max_sql_rows env)) df)) (\<lambda>limited.
      df_collect engine limited)) w"
  by (simp add: execute_sql_query_def io_lift_def io_try_def)

lemma execute_ok_validated:
  assumes "execute_sql_query parse_sql engine env query w = (Inr bs, w')"
  shows "validate_sql_is_safe parse_sql query = Inr ()"
  using assms by (cases "validate_sql_is_safe parse_sql query") (auto simp: execute_rejected)

lemma write_batches_vec:
  assumes "\<forall>b \<in> set batches. encode_rows arr b = Inr (rows b)"
  shows "write_record_batches_as_json_lines arr vec_write batches buffer =
    (Inr (), buffer @ json_lines (concat (map rows batches)))"
  using assms
  by (induction batches arbitrary: buffer)
    (auto simp: io_simps vec_write_def json_lines_def)

lemma utf8_valid_append:
  assumes "utf8_valid s" "utf8_valid t"
  shows "utf8_valid (s @ t)"
  using assms(1)
proof (induction s rule: utf8_valid.induct)
  case 1
  then show ?case using assms(2) by simp
next
  case (2 a s)
  show ?case
  proof (cases "in_range 0 0x7F a")
    case True
    with 2 show ?thesis by simp
  next
    case multi: False
    with "2.prems" obtain b s2 where s: "s = b # s2" by (cases s) simp_all
    show ?thesis
    proof (cases "utf8_pair a b")
      case True
      with 2 multi s show ?thesis by simp
    next
      case no_pair: False
      with "2.prems" multi s obtain c s3 where s2: "s2 = c # s3" by (cases s2) simp_all
      show ?thesis
      proof (cases "utf8_triple a b c")
        case True
        with 2 multi no_pair s s2 show ?thesis by simp
      next
        case no_triple: False
        with "2.prems" multi no_pair s s2 obtain d s4 where "s3 = d # s4" by (cases s3) simp_all
        with 2 multi no_pair no_triple s s2 show ?thesis by simp
      qed
    qed
  qed
qed

lemma utf8_json_lines: "\<forall>r \<in> set rows. utf8_valid r \<Longrightarrow> utf8_valid (json_lines rows)"
  by (induction rows) (auto simp: json_lines_def nl_def in_range_def intro!: utf8_valid_append)

text \<open>The text of a JSON object: in braces, on one line, valid UTF-8.\<close>

definition object_text :: "string \<Rightarrow> bool" where
  "object_text r \<longleftrightarrow> (\<exists>body. r = CHR ''{'' # body @ [CHR ''}'']) \<and> nl \<notin> set r \<and> utf8_valid r"

lemma trim_braces: "trim (CHR ''{'' # body @ [CHR ''}'']) = CHR ''{'' # body @ [CHR ''}'']"
  by (rule trim_fixI) (simp_all add: ws_at_None ws_encodings_def)

lemma object_text_line:
  assumes "object_text r"
  shows "trim r = r" "\<not> suffix [cr] r" "r \<noteq> []" "nl \<notin> set r" "utf8_valid r"
  using assms trim_braces by (auto simp: object_text_def suffix_def cr_def append_eq_Cons_conv)

lemma record_batches_json:
  assumes enc: "\<forall>b \<in> set batches. encode_rows arr b = Inr (rows b)"
    and obj: "\<forall>b \<in> set batches. \<forall>r \<in> set (rows b). object_text r"
  shows "record_batches_to_json_lines arr batches = Inr (concat (map rows batches))"
proof -
  define rs where "rs = concat (map rows batches)"
  have rs: "\<forall>r \<in> set rs. object_text r" using obj by (auto simp: rs_def)
  have "str_lines (json_lines rs) = rs"
    unfolding json_lines_def using rs by (intro str_lines_rows) (auto dest: object_text_line)
  moreover have "filter (\<lambda>l. l \<noteq> []) (map trim rs) = rs"
    using rs by (induction rs) (auto simp: object_text_line)
  moreover have "utf8_valid (json_lines rs)"
    using rs by (intro utf8_json_lines) (auto dest: object_text_line)
  ultimately show ?thesis
    by (simp add: record_batches_to_json_lines_def write_batches_vec [OF enc] flip: rs_def)
qed

section \<open>Properties\<close>


text \<open>The row limit: when the engine's \<open>limit\<close> keeps the first rows of a plan (as its
  documentation says), a query returns the first \<open>MAX_SQL_ROWS\<close> rows of its result and nothing
  else; the rest of the result never leaves the engine.\<close>

theorem sql_row_limit:
  assumes limit_law: "\<And>n plan limited. df_limit engine 0 (Some n) plan = Inr limited \<Longrightarrow>
      \<forall>w. case df_collect engine plan w of
            (Inl e, w') \<Rightarrow> df_collect engine limited w = (Inl e, w')
          | (Inr bs, w') \<Rightarrow> \<exists>ls. df_collect engine limited w = (Inr ls, w') \<and>
              concat (map table_rows ls) = take n (concat (map table_rows bs))"
    and run: "execute_sql_query parse_sql engine env query w = (Inr out, w')"
  shows "\<exists>plan w1 bs. ctx_sql engine query w = (Inr plan, w1) \<and>
    df_collect engine plan w1 = (Inr bs, w') \<and>
    concat (map table_rows out) = take (max_sql_rows env) (concat (map table_rows bs)) \<and>
    length (concat (map table_rows out)) \<le> max_sql_rows env"
proof -
  have "validate_sql_is_safe parse_sql query = Inr ()" using run by (rule execute_ok_validated)
  with run obtain plan w1 limited where plan: "ctx_sql engine query w = (Inr plan, w1)"
    and lim: "df_limit engine 0 (Some (max_sql_rows env)) plan = Inr limited"
    and out: "df_collect engine limited w1 = (Inr out, w')"
    by (auto simp: execute_accepted result_simps io_lift_def)
  from spec [OF limit_law [OF lim], of w1] out obtain bs
    where "df_collect engine plan w1 = (Inr bs, w')"
      "concat (map table_rows out) = take (max_sql_rows env) (concat (map table_rows bs))"
    by (auto split: prod.splits sum.splits)
  with plan show ?thesis by auto
qed

text \<open>An engine over one table of numbered rows, one batch per three rows.\<close>

definition toy_engine :: "(nat, nat list, nat list) datafusion" where
  "toy_engine = \<lparr>register_csv = (\<lambda>_ _. io_ok ()),
     ctx_sql = (\<lambda>q. io_ok [0, 1, 2, 3]),
     df_limit = (\<lambda>skip fetch plan. Inr (case fetch of None \<Rightarrow> plan | Some n \<Rightarrow> take n plan)),
     df_collect = (\<lambda>plan w. (Inr [take 3 plan, drop 3 plan], Suc w))\<rparr>"

definition toy_parser :: "(string, string) sql_parser" where
  "toy_parser q = (if prefix ''SELECT'' q then Inr [Query q] else Inr [Other_Statement q])"

theorem sql_row_limit_witness:
  "execute_sql_query toy_parser toy_engine (\<lambda>_. Some ''2'') ''SELECT 1'' 0 = (Inr [[0, 1], []], 1) \<and>
   length (concat (map (\<lambda>b. b) [[0, 1], [] :: nat list])) \<le> 2"
proof -
  have "show_nat 2 = ''2''" by code_simp
  then have two: "max_sql_rows (\<lambda>_. Some ''2'') = 2"
    by (simp add: max_sql_rows_def env_usize_text)
  have run: "execute_sql_query toy_parser toy_engine (\<lambda>_. Some ''2'') ''SELECT 1'' 0 =
      (Inr [[0, 1], []], 1)"
    by (simp add: execute_sql_query_def toy_parser_def toy_engine_def io_simps two
        validate_sql_is_safe_def)
  have "\<exists>plan w1 bs. ctx_sql toy_engine ''SELECT 1'' 0 = (Inr plan, w1) \<and>
    df_collect toy_engine plan w1 = (Inr bs, 1) \<and>
    concat (map (\<lambda>b. b) [[0, 1], []]) =
      take (max_sql_rows (\<lambda>_. Some ''2'')) (concat (map (\<lambda>b. b) bs)) \<and>
    length (concat (map (\<lambda>b. b) [[0, 1], [] :: nat list])) \<le> max_sql_rows (\<lambda>_. Some ''2'')"
    by (rule sql_row_limit [OF _ run]) (auto simp: toy_engine_def)
  with run two show ?thesis by auto
qed

text \<open>Result batches are rendered one JSON object per line, in the order of the rows, across
  batch boundaries, with nothing added or lost: the lines read back from the buffer are the texts
  the encoder wrote.\<close>

theorem json_lines_faithful:
  assumes "\<forall>b \<in> set batches. encode_rows arr b = Inr (rows b)"
    and "\<forall>b \<in> set batches. \<forall>r \<in> set (rows b). object_text r"
  shows "record_batches_to_json_lines arr batches = Inr (concat (map rows batches)) \<and>
    write_record_batches_as_json_lines arr vec_write batches [] =
      (Inr (), json_lines (concat (map rows batches)))"
  using record_batches_json [OF assms] write_batches_vec [OF assms(1)] by simp

definition toy_arrow :: "string list arrow" where
  "toy_arrow = \<lparr>num_rows = length, encode_rows = Inr\<rparr>"

lemma object_textI:
  "r = CHR ''{'' # body @ [CHR ''}''] \<Longrightarrow> nl \<notin> set r \<and> utf8_valid r \<Longrightarrow> object_text r"
  by (auto simp: object_text_def)

lemma toy_objects: "object_text ''{1}''" "object_text ''{2}''" "object_text ''{3}''"
proof -
  show "object_text ''{1}''" by (rule object_textI [of _ "''1''"], simp, code_simp)
  show "object_text ''{2}''" by (rule object_textI [of _ "''2''"], simp, code_simp)
  show "object_text ''{3}''" by (rule object_textI [of _ "''3''"], simp, code_simp)
qed

theorem json_lines_faithful_witness:
  "record_batches_to_json_lines toy_arrow [[''{1}'', ''{2}''], [], [''{3}'']] =
     Inr [''{1}'', ''{2}'', ''{3}'']"
proof -
  have enc: "\<forall>b \<in> set [[''{1}'', ''{2}''], [], [''{3}'']]. encode_rows toy_arrow b = Inr b"
    by (simp add: toy_arrow_def)
  have obj: "\<forall>b \<in> set [[''{1}'', ''{2}''], [], [''{3}'']]. \<forall>r \<in> set b. object_text r"
    by (simp add: toy_objects)
  from json_lines_faithful [OF enc obj] show ?thesis by simp
qed

end
