(* ===== verification/Rank_Fusion.thy ===== *)
theory Rank_Fusion
  imports Types
begin

text \<open>
  \<open>src/engines/rank_fusion.rs\<close>: reciprocal rank fusion of the dense and the lexical candidate
  lists. The \<open>HashMap\<close> of scores is a map; the order in which \<open>into_iter\<close> lists it is the
  parameter \<open>order\<close>, of which the code relies on what \<open>std\<close> documents: every entry, once.
\<close>

section \<open>Scores\<close>

definition contribution :: "f32 \<Rightarrow> nat \<Rightarrow> f32" where
  "contribution k r = f32_div f32_one (f32_add k (f32_of_nat (r + 1)))"

definition bump_score :: "f32 \<Rightarrow> nat \<Rightarrow> (string \<rightharpoonup> f32) \<Rightarrow> string \<Rightarrow> (string \<rightharpoonup> f32)" where
  "bump_score k r scores i =
     scores(i \<mapsto> f32_add (case scores i of None \<Rightarrow> f32_zero | Some s \<Rightarrow> s) (contribution k r))"

fun accumulate :: "f32 \<Rightarrow> nat \<Rightarrow> string list \<Rightarrow> (string \<rightharpoonup> f32) \<Rightarrow> (string \<rightharpoonup> f32)" where
  "accumulate k r [] scores = scores"
| "accumulate k r (i # ids) scores = accumulate k (Suc r) ids (bump_score k r scores i)"

definition fusion_scores :: "string list \<Rightarrow> string list \<Rightarrow> f32 \<Rightarrow> (string \<rightharpoonup> f32)" where
  "fusion_scores dense lexical k = accumulate k 0 lexical (accumulate k 0 dense Map.empty)"

section \<open>Ranking\<close>

text \<open>\<open>b.1.total_cmp(&a.1).then_with(|| a.0.cmp(&b.0))\<close> is not \<open>Greater\<close>.\<close>

definition fuse_le :: "string \<times> f32 \<Rightarrow> string \<times> f32 \<Rightarrow> bool" where
  "fuse_le a b \<longleftrightarrow> snd b < snd a \<or> snd a = snd b \<and> fst a \<le> fst b"

type_synonym ('k, 'v) hash_order = "('k \<rightharpoonup> 'v) \<Rightarrow> ('k \<times> 'v) list"

definition lists_map :: "('k, 'v) hash_order \<Rightarrow> ('k \<rightharpoonup> 'v) \<Rightarrow> bool" where
  "lists_map order m \<longleftrightarrow> map_of (order m) = m \<and> distinct (map fst (order m))"

definition fuse_ranked_candidates ::
  "(string, f32) hash_order \<Rightarrow> string list \<Rightarrow> string list \<Rightarrow> f32 \<Rightarrow> (string \<times> f32) list" where
  "fuse_ranked_candidates order dense lexical k =
     sort_by fuse_le (order (fusion_scores dense lexical k))"

interpretation fusion: comparator fuse_le
  by unfold_locales (auto simp: fuse_le_def)

lemma fuse_le_antisym: "fuse_le x y \<Longrightarrow> fuse_le y x \<Longrightarrow> x = y"
  by (auto simp: fuse_le_def prod_eq_iff)

section \<open>The score of an identifier\<close>

fun rank_in :: "string \<Rightarrow> string list \<Rightarrow> nat option" where
  "rank_in i [] = None"
| "rank_in i (x # xs) = (if x = i then Some 0 else map_option Suc (rank_in i xs))"

definition part :: "f32 \<Rightarrow> string list \<Rightarrow> string \<Rightarrow> f32" where
  "part k ids i = (case rank_in i ids of None \<Rightarrow> f32_zero | Some r \<Rightarrow> contribution k r)"

lemma rank_in_None: "rank_in i ids = None \<longleftrightarrow> i \<notin> set ids"
  by (induction ids) auto

lemma rank_in_SomeD: "rank_in i ids = Some j \<Longrightarrow> i \<in> set ids"
  using rank_in_None [of i ids] by auto

lemma rank_in_ex: "i \<in> set ids \<Longrightarrow> \<exists>j. rank_in i ids = Some j"
  using rank_in_None [of i ids] by auto

lemma pos_num_contribution [f32_simps]: "pos_num k \<Longrightarrow> pos_num (contribution k r)"
  by (simp add: contribution_def f32_simps)

lemma pos_num_part [f32_simps]: "pos_num k \<Longrightarrow> pos_num (part k ids i)"
  by (simp add: part_def f32_simps split: option.split)

lemma contribution_antimono:
  assumes "pos_num k" "r \<le> r'"
  shows "contribution k r' \<le> contribution k r"
proof -
  have "f32_of_nat (r + 1) \<le> f32_add k (f32_of_nat (r + 1))"
    using f32_add_ge_left [OF pos_num_of_nat [of "r + 1"] assms(1)] assms(1)
    by (simp add: f32_add_commute f32_simps)
  then have "f32_val (f32_of_nat (r + 1)) \<le> f32_val (f32_add k (f32_of_nat (r + 1)))"
    using assms(1) by (simp add: pos_num_le_val f32_simps)
  then have "0 < f32_val (f32_add k (f32_of_nat (r + 1)))"
    using f32_val_of_nat_pos [of r] by simp
  then show ?thesis
    unfolding contribution_def using assms
    by (intro f32_recip_antimono f32_add_mono f32_of_nat_mono) (simp_all add: f32_simps)
qed

lemma dom_accumulate: "dom (accumulate k r ids m) = dom m \<union> set ids"
  by (induction ids arbitrary: r m) (auto simp: bump_score_def)

lemma accumulate_notin: "i \<notin> set ids \<Longrightarrow> accumulate k r ids m i = m i"
  by (induction ids arbitrary: r m) (auto simp: bump_score_def)

lemma accumulate_distinct:
  assumes "distinct ids"
  shows "accumulate k r ids m i =
    (case rank_in i ids of
       None \<Rightarrow> m i
     | Some j \<Rightarrow> Some (f32_add (case m i of None \<Rightarrow> f32_zero | Some s \<Rightarrow> s) (contribution k (r + j))))"
  using assms
proof (induction ids arbitrary: r m)
  case Nil
  then show ?case by simp
next
  case (Cons x ids)
  show ?case
  proof (cases "x = i")
    case True
    with Cons.prems show ?thesis by (simp add: accumulate_notin bump_score_def)
  next
    case False
    with Cons show ?thesis
      by (auto simp: bump_score_def accumulate_notin split: option.splits dest: rank_in_SomeD)
  qed
qed

lemma fusion_scores_distinct:
  assumes "distinct dense" "distinct lexical" "pos_num k" "i \<in> set dense \<union> set lexical"
  shows "fusion_scores dense lexical k i = Some (f32_add (part k dense i) (part k lexical i))"
proof -
  have inner: "(case accumulate k 0 dense Map.empty i of None \<Rightarrow> f32_zero | Some s \<Rightarrow> s) =
      part k dense i"
    using assms by (auto simp: accumulate_distinct part_def f32_add_zero_left f32_simps
        split: option.splits dest: rank_in_SomeD)
  show ?thesis
  proof (cases "i \<in> set lexical")
    case True
    then obtain j where "rank_in i lexical = Some j"
      using rank_in_ex by blast
    with assms inner show ?thesis
      by (simp add: fusion_scores_def accumulate_distinct [of lexical] part_def)
  next
    case False
    then have "part k lexical i = f32_zero" "i \<in> set dense"
      using assms(4) by (auto simp: part_def split: option.split dest: rank_in_SomeD)
    moreover obtain j where "rank_in i dense = Some j"
      using calculation(2) rank_in_ex by blast
    ultimately show ?thesis using assms False
      by (simp add: fusion_scores_def accumulate_notin accumulate_distinct part_def
          f32_add_zero_left f32_add_zero_right f32_simps)
  qed
qed

lemma set_fuse:
  assumes "lists_map order (fusion_scores dense lexical k)"
  shows "(i, s) \<in> set (fuse_ranked_candidates order dense lexical k) \<longleftrightarrow>
    fusion_scores dense lexical k i = Some s"
  using assms by (simp add: fuse_ranked_candidates_def lists_map_def flip: map_of_eq_Some_iff)

lemma dom_fusion_scores: "dom (fusion_scores dense lexical k) = set dense \<union> set lexical"
  by (simp add: fusion_scores_def dom_accumulate)

section \<open>Dominance\<close>

text \<open>\<open>a\<close> is ranked at least as well as \<open>b\<close> in a list: \<open>b\<close> is absent, or both are present and
  \<open>a\<close> comes no later.\<close>

definition ranked_no_worse :: "string list \<Rightarrow> string \<Rightarrow> string \<Rightarrow> bool" where
  "ranked_no_worse ids a b \<longleftrightarrow>
     (case rank_in b ids of
        None \<Rightarrow> True
      | Some j \<Rightarrow> (case rank_in a ids of None \<Rightarrow> False | Some i \<Rightarrow> i \<le> j))"

lemma part_mono: "pos_num k \<Longrightarrow> ranked_no_worse ids a b \<Longrightarrow> part k ids b \<le> part k ids a"
  by (auto simp: part_def ranked_no_worse_def contribution_antimono zero_le_pos f32_simps
      split: option.splits)

definition precedes :: "'a list \<Rightarrow> 'a \<Rightarrow> 'a \<Rightarrow> bool" where
  "precedes xs x y \<longleftrightarrow> (\<exists>us vs ws. xs = us @ x # vs @ y # ws)"

lemma sorted_precedes:
  assumes "sorted_wrt le xs" "x \<in> set xs" "y \<in> set xs" "\<not> le y x" "x \<noteq> y"
  shows "precedes xs x y"
proof -
  obtain us vs where xs: "xs = us @ x # vs" using assms(2) by (auto dest: split_list)
  have "y \<notin> set us" using assms(1,4) by (auto simp: xs sorted_wrt_append)
  then have "y \<in> set vs" using assms(3,5) xs by auto
  then show ?thesis by (auto simp: xs precedes_def dest!: split_list)
qed

section \<open>Listings of a map\<close>

text \<open>The iteration order that visits given keys; it lists every map with exactly these keys.\<close>

definition listing :: "'k list \<Rightarrow> ('k, 'v) hash_order" where
  "listing ks m = map (\<lambda>k. (k, the (m k))) ks"

lemma map_of_listing: "map_of (listing ks m) k = (if k \<in> set ks then Some (the (m k)) else None)"
  by (induction ks) (auto simp: listing_def)

lemma lists_map_listing:
  assumes "dom m = set ks" "distinct ks"
  shows "lists_map (listing ks) m"
proof -
  have "map_of (listing ks m) k = m k" for k
    using assms(1) by (cases "m k") (auto simp: map_of_listing)
  then show ?thesis using assms(2) by (auto simp: lists_map_def listing_def comp_def)
qed

section \<open>Properties\<close>

lemma fuse_entries:
  assumes "lists_map order (fusion_scores dense lexical k)"
  shows "distinct (map fst (fuse_ranked_candidates order dense lexical k))"
    and "map_of (fuse_ranked_candidates order dense lexical k) = fusion_scores dense lexical k"
proof -
  let ?res = "fuse_ranked_candidates order dense lexical k"
  let ?src = "order (fusion_scores dense lexical k)"
  have "mset (map fst ?res) = mset (map fst ?src)"
    by (simp add: fuse_ranked_candidates_def)
  then show d: "distinct (map fst ?res)"
    using assms by (metis lists_map_def mset_eq_imp_distinct_iff)
  have "map_of ?res = map_of ?src"
    using assms d by (subst map_of_inject_set) (simp_all add: lists_map_def fuse_ranked_candidates_def)
  then show "map_of ?res = fusion_scores dense lexical k"
    using assms by (simp add: lists_map_def)
qed


lemma sample_listing:
  "lists_map (listing [''docC'', ''docA'', ''docB''])
     (fusion_scores [''docA'', ''docB''] [''docB'', ''docC''] (F32 0x42700000))"
  by (rule lists_map_listing) (auto simp: dom_fusion_scores)


text \<open>C29: The fused ranking does not depend on the iteration order of the hash map: the scores
  are sorted by a total order on (score, identifier) pairs.\<close>

theorem fuse_order_independent:
  assumes "lists_map order1 (fusion_scores dense lexical k)"
    and "lists_map order2 (fusion_scores dense lexical k)"
  shows "fuse_ranked_candidates order1 dense lexical k = fuse_ranked_candidates order2 dense lexical k"
  unfolding fuse_ranked_candidates_def
proof (rule fusion.sort_by_perm_eq)
  show "mset (order1 (fusion_scores dense lexical k)) = mset (order2 (fusion_scores dense lexical k))"
    using assms by (auto simp: lists_map_def intro: map_of_distinct_mset)
qed (rule fuse_le_antisym)

theorem fuse_order_independent_witness:
  "fuse_ranked_candidates (listing [''docC'', ''docA'', ''docB''])
     [''docA'', ''docB''] [''docB'', ''docC''] (F32 0x42700000) =
   fuse_ranked_candidates (listing [''docA'', ''docB'', ''docC''])
     [''docA'', ''docB''] [''docB'', ''docC''] (F32 0x42700000)"
  by (rule fuse_order_independent [OF sample_listing])
    (rule lists_map_listing, auto simp: dom_fusion_scores)


lemma sample_fusion:
  "fuse_ranked_candidates (listing [''docC'', ''docA'', ''docB''])
     [''docA'', ''docB''] [''docB'', ''docC''] (F32 0x42700000) =
   [(''docB'', F32 1023751753), (''docA'', F32 1015434122), (''docC'', F32 1015292168)]"
  by code_simp


end
