(* ===== verification/Vector_Store.thy ===== *)
theory Vector_Store
  imports Rank_Fusion Embeddings
begin

text \<open>
  \<open>src/engines/vector.rs\<close>: the hybrid search over the LanceDB table \<open>customers\<close> (a dense pass,
  a lexical pass per filter, rank fusion), the deterministic fallback search, the insertion of a
  batch, the health probe and the index creation. LanceDB is a parameter: a record of its calls over
  the outside's state. A stream of record batches is the list of the items it yields.
\<close>

section \<open>The database as the code calls it\<close>

text \<open>A record batch as far as it is read: its number of rows and its string columns by name
  (Arrow gives every column that number of values).\<close>

record row_batch =
  batch_len :: nat
  string_column :: "string \<Rightarrow> string list option"

type_synonym batch_stream = "(string + row_batch) list"

text \<open>The columns of an inserted batch; the vectors are one flat buffer of rows of 768 values.\<close>

record customer_batch =
  col_kunnr :: "string list"
  col_name :: "string list"
  col_city :: "string list"
  col_sentence :: "string list"
  col_vector :: "f32 list"

datatype index_kind = BTree | Auto

record ('w, 'conn, 'tbl) lancedb =
  connect :: "string \<Rightarrow> ('w, err, 'conn) io"
  open_table :: "'conn \<Rightarrow> string \<Rightarrow> ('w, err, 'tbl) io"
  drop_table :: "'conn \<Rightarrow> string \<Rightarrow> ('w, err, unit) io"
  nearest_to :: "'tbl \<Rightarrow> f32 list \<Rightarrow> nat \<Rightarrow> ('w, err, batch_stream) io"
  only_if :: "'tbl \<Rightarrow> string \<Rightarrow> nat option \<Rightarrow> ('w, err, batch_stream) io"
  count_rows :: "'tbl \<Rightarrow> ('w, err, nat) io"
  list_indices :: "'tbl \<Rightarrow> ('w, err, string list list) io"
  create_index :: "'tbl \<Rightarrow> string list \<Rightarrow> index_kind \<Rightarrow> ('w, err, unit) io"
  merge_insert_new :: "'tbl \<Rightarrow> string list \<Rightarrow> customer_batch \<Rightarrow> ('w, err, unit) io"
  create_table :: "'conn \<Rightarrow> string \<Rightarrow> customer_batch \<Rightarrow> ('w, err, unit) io"

section \<open>Insertion\<close>

definition insert_batch ::
  "('w, 'conn, 'tbl) lancedb \<Rightarrow> 'conn \<Rightarrow> (string \<times> string \<times> string) list \<Rightarrow> string list
     \<Rightarrow> f32 list list \<Rightarrow> ('w, err, unit) io" where
  "insert_batch db vector_db records documents embeddings =
     (if length (concat embeddings) \<noteq> length embeddings * 768
      then io_err (Panic ''Length of the child array must be the multiple of the value length'')
      else if length documents \<noteq> length records \<or> length embeddings \<noteq> length records
      then io_err (External ''all columns in a record batch must have the same length'')
      else
        (let batch = \<lparr>col_kunnr = map (\<lambda>(name, city, k). k) records,
                      col_name = map (\<lambda>(name, city, k). name) records,
                      col_city = map (\<lambda>(name, city, k). city) records,
                      col_sentence = documents,
                      col_vector = concat embeddings\<rparr>
         in (\<lambda>w. case open_table db vector_db ''customers'' w of
                (Inr target_table, w') \<Rightarrow> merge_insert_new db target_table [''kunnr''] batch w'
              | (Inl _, w') \<Rightarrow> create_table db vector_db ''customers'' batch w')))"

section \<open>Reading chunks\<close>

text \<open>\<open>chunk_json\<close> is the JSON text of the object with the fields \<open>kunnr\<close>, \<open>name\<close> and \<open>city\<close>; it
  depends on serde's map, so it is a parameter. The \<open>HashMap\<close> of chunks is a map.\<close>

type_synonym chunk_map = "string \<rightharpoonup> string"
type_synonym json_text = "string \<Rightarrow> string \<Rightarrow> string \<Rightarrow> string"

fun extract_rows ::
  "json_text \<Rightarrow> string list \<Rightarrow> string list \<Rightarrow> string list \<Rightarrow> nat list \<Rightarrow> chunk_map
     \<Rightarrow> string list \<times> chunk_map" where
  "extract_rows chunk_json kunnrs names cities [] m = ([], m)"
| "extract_rows chunk_json kunnrs names cities (i # is) m =
     (let k = kunnrs ! i;
          (ids, m') = extract_rows chunk_json kunnrs names cities is
                        (m(k \<mapsto> chunk_json k (names ! i) (cities ! i)))
      in (k # ids, m'))"

fun extract_chunks_from_stream ::
  "json_text \<Rightarrow> batch_stream \<Rightarrow> chunk_map \<Rightarrow> (string list \<times> chunk_map) result" where
  "extract_chunks_from_stream chunk_json [] m = Inr ([], m)"
| "extract_chunks_from_stream chunk_json (Inl e # stream) m = Inl (External e)"
| "extract_chunks_from_stream chunk_json (Inr batch # stream) m =
     (let (ids, m') =
        (case (string_column batch ''name'', string_column batch ''city'', string_column batch ''kunnr'') of
           (Some names, Some cities, Some kunnrs) \<Rightarrow>
             extract_rows chunk_json kunnrs names cities [0..<batch_len batch] m
         | _ \<Rightarrow> ([], m))
      in try_res (extract_chunks_from_stream chunk_json stream m')
           (\<lambda>(more, m''). Inr (ids @ more, m'')))"

section \<open>Hybrid search\<close>

definition like_clause :: "string \<Rightarrow> string" where
  "like_clause term_text =
     ''sentence LIKE '' @ [quote] @ ''%'' @ double_quotes term_text @ ''%'' @ [quote]"

definition drop_matching :: "string \<Rightarrow> chunk_map \<Rightarrow> chunk_map" where
  "drop_matching term_text m =
     (\<lambda>k. case m k of None \<Rightarrow> None | Some v \<Rightarrow> if str_contains v term_text then None else Some v)"

fun lexical_pass ::
  "('w, 'conn, 'tbl) lancedb \<Rightarrow> json_text \<Rightarrow> 'tbl \<Rightarrow> string list \<Rightarrow> string list \<times> chunk_map
     \<Rightarrow> ('w, err, string list \<times> chunk_map) io" where
  "lexical_pass db chunk_json tbl [] (lexical_ids, m) = io_ok (lexical_ids, m)"
| "lexical_pass db chunk_json tbl (f # fs) (lexical_ids, m) =
     (case strip_prefix ''NOT '' f of
        Some term_text \<Rightarrow> lexical_pass db chunk_json tbl fs (lexical_ids, drop_matching term_text m)
      | None \<Rightarrow>
          io_try (only_if db tbl (like_clause f) (Some 20)) (\<lambda>stream.
          io_try (io_lift (extract_chunks_from_stream chunk_json stream m)) (\<lambda>(ids, m').
          lexical_pass db chunk_json tbl fs (lexical_ids @ ids, m'))))"

text \<open>The chunks of the fused identifiers in order; \<open>remove\<close> takes each out of the map.\<close>

fun collect_ordered :: "string list \<Rightarrow> chunk_map \<Rightarrow> (string \<times> string) list" where
  "collect_ordered [] m = []"
| "collect_ordered (i # ids) m =
     (case m i of
        Some chunk \<Rightarrow> (i, chunk) # collect_ordered ids (m(i := None))
      | None \<Rightarrow> collect_ordered ids m)"

definition rrf_k :: f32 where "rrf_k = F32 0x42700000"

definition execute_hybrid_search_on_connection ::
  "('w, 'conn, 'tbl) lancedb \<Rightarrow> json_text \<Rightarrow> (string, f32) hash_order \<Rightarrow> f32 list \<Rightarrow> 'conn
     \<Rightarrow> string list \<Rightarrow> ('w, err, (string \<times> string) list) io" where
  "execute_hybrid_search_on_connection db chunk_json order query_vector vector_db query_filters =
     io_try (open_table db vector_db ''customers'') (\<lambda>target_table.
     io_try (nearest_to db target_table query_vector 20) (\<lambda>vector_stream.
     io_try (io_lift (extract_chunks_from_stream chunk_json vector_stream Map.empty)) (\<lambda>(dense_ids, m).
     io_try (lexical_pass db chunk_json target_table query_filters ([], m)) (\<lambda>(lexical_ids, m').
     io_ok (collect_ordered
              (map fst (take 20 (fuse_ranked_candidates order dense_ids lexical_ids rrf_k))) m')))))"

definition execute_hybrid_search ::
  "('w, 'conn, 'tbl) lancedb \<Rightarrow> json_text \<Rightarrow> (string, f32) hash_order \<Rightarrow> f32 list \<Rightarrow> string
     \<Rightarrow> string list \<Rightarrow> ('w, err, (string \<times> string) list) io" where
  "execute_hybrid_search db chunk_json order query_vector db_uri query_filters =
     io_try (connect db db_uri) (\<lambda>vector_db.
     execute_hybrid_search_on_connection db chunk_json order query_vector vector_db query_filters)"

definition execute_semantic_search_vector ::
  "('w, 'conn, 'tbl) lancedb \<Rightarrow> json_text \<Rightarrow> (string, f32) hash_order \<Rightarrow> f32 list \<Rightarrow> string
     \<Rightarrow> string list \<Rightarrow> ('w, err, (string \<times> string) list) io" where
  "execute_semantic_search_vector = execute_hybrid_search"

definition execute_semantic_search_vector_on_connection ::
  "('w, 'conn, 'tbl) lancedb \<Rightarrow> json_text \<Rightarrow> (string, f32) hash_order \<Rightarrow> f32 list \<Rightarrow> 'conn
     \<Rightarrow> string list \<Rightarrow> ('w, err, (string \<times> string) list) io" where
  "execute_semantic_search_vector_on_connection = execute_hybrid_search_on_connection"

definition execute_semantic_search ::
  "('w, 'conn, 'tbl) lancedb \<Rightarrow> json_text \<Rightarrow> (string, f32) hash_order \<Rightarrow> env \<Rightarrow> bert \<Rightarrow> string
     \<Rightarrow> string \<Rightarrow> string list \<Rightarrow> ('w, err, chunk_map) io" where
  "execute_semantic_search db chunk_json order env m query db_uri query_filters =
     io_try (io_lift (get_embeddings env m [query])) (\<lambda>embeddings.
     case embeddings of
       [] \<Rightarrow> io_err NoEmbedding
     | query_vector # _ \<Rightarrow>
         io_try (execute_semantic_search_vector db chunk_json order query_vector db_uri query_filters)
           (\<lambda>ordered. io_ok (map_of (rev ordered))))"

section \<open>Fallback search, health, indexes\<close>

definition build_fallback_sql :: "string \<Rightarrow> string" where
  "build_fallback_sql intent_text =
     (let conditions = map like_clause (split_whitespace intent_text)
      in if conditions = [] then ''1=0'' else str_join '' AND '' conditions)"

definition execute_fallback_search ::
  "('w, 'conn, 'tbl) lancedb \<Rightarrow> json_text \<Rightarrow> string \<Rightarrow> string \<Rightarrow> ('w, err, chunk_map) io" where
  "execute_fallback_search db chunk_json intent_text db_uri =
     io_try (connect db db_uri) (\<lambda>vector_db.
     io_try (open_table db vector_db ''customers'') (\<lambda>target_table.
     io_try (only_if db target_table (build_fallback_sql intent_text) (Some 5)) (\<lambda>exact_stream.
     io_try (io_lift (extract_chunks_from_stream chunk_json exact_stream Map.empty)) (\<lambda>(_, m).
     io_ok m))))"

definition check_lancedb_health :: "('w, 'conn, 'tbl) lancedb \<Rightarrow> string \<Rightarrow> ('w, err, nat) io" where
  "check_lancedb_health db db_uri =
     io_try (connect db db_uri) (\<lambda>vector_db.
     io_try (open_table db vector_db ''customers'') (\<lambda>target_table.
     count_rows db target_table))"

definition is_vector_indexed :: "('w, 'conn, 'tbl) lancedb \<Rightarrow> string \<Rightarrow> ('w, err, bool) io" where
  "is_vector_indexed db db_uri =
     io_try (connect db db_uri) (\<lambda>vector_db.
     io_try (open_table db vector_db ''customers'') (\<lambda>target_table.
     io_try (list_indices db target_table) (\<lambda>indices.
     io_ok (list_ex (list_ex (\<lambda>c. c = ''vector'')) indices))))"

definition create_scalar_index :: "('w, 'conn, 'tbl) lancedb \<Rightarrow> 'tbl \<Rightarrow> string \<Rightarrow> ('w, err, unit) io" where
  "create_scalar_index db tbl col = create_index db tbl [col] BTree"

definition create_vector_index :: "('w, 'conn, 'tbl) lancedb \<Rightarrow> 'tbl \<Rightarrow> string \<Rightarrow> ('w, err, unit) io" where
  "create_vector_index db tbl col =
     io_try (count_rows db tbl) (\<lambda>n.
     if n < 256 then io_ok () else create_index db tbl [col] Auto)"

section \<open>Facts\<close>

text \<open>How SQL reads a string literal after its opening quote: two quotes are one, a single quote
  ends it. \<open>scan_conditions\<close> reads a conjunction of \<open>LIKE\<close> conditions back.\<close>

fun sql_literal :: "string \<Rightarrow> (string \<times> string) option" where
  "sql_literal [] = None"
| "sql_literal [c] = (if c = quote then Some ([], []) else None)"
| "sql_literal (c # d # cs) =
     (if c \<noteq> quote then map_option (\<lambda>(l, r). (c # l, r)) (sql_literal (d # cs))
      else if d = quote then map_option (\<lambda>(l, r). (quote # l, r)) (sql_literal cs)
      else Some ([], d # cs))"

lemma sql_literal_shorter: "sql_literal s = Some (l, r) \<Longrightarrow> length r < length s"
proof (induction s arbitrary: l r rule: sql_literal.induct)
  case (3 c d cs)
  then show ?case by (cases "c = quote"; cases "d = quote") fastforce+
qed (auto split: if_splits)

function scan_conditions :: "string \<Rightarrow> string list option" where
  "scan_conditions s =
     (case strip_prefix (''sentence LIKE '' @ [quote]) s of
        None \<Rightarrow> None
      | Some t \<Rightarrow>
          (case sql_literal t of
             None \<Rightarrow> None
           | Some (l, r) \<Rightarrow>
               (if r = [] then Some [l]
                else (case strip_prefix '' AND '' r of
                        None \<Rightarrow> None
                      | Some u \<Rightarrow> map_option (Cons l) (scan_conditions u)))))"
  by pat_completeness auto
termination
  by (relation "measure length")
    (auto simp: strip_prefix_Some dest!: sql_literal_shorter)

declare scan_conditions.simps [simp del]

lemma sql_literal_quoted:
  assumes "r = [] \<or> hd r \<noteq> quote"
  shows "sql_literal (double_quotes s @ quote # r) = Some (s, r)"
proof (induction s)
  case Nil
  then show ?case using assms by (cases r) (auto simp: double_quotes_def)
next
  case (Cons c s)
  obtain d ds where ds: "double_quotes s @ quote # r = d # ds"
    by (cases "double_quotes s @ quote # r") auto
  have "double_quotes (c # s) = (if c = quote then [quote, quote] else [c]) @ double_quotes s"
    by (simp add: double_quotes_def)
  then show ?case using Cons ds by (simp add: double_quotes_def)
qed

lemma double_quotes_percent: "''%'' @ double_quotes s @ ''%'' = double_quotes (''%'' @ s @ ''%'')"
  by (simp add: double_quotes_def quote_def)

lemma scan_one:
  assumes "r = [] \<or> hd r \<noteq> quote"
  shows "scan_conditions (like_clause t @ r) =
    (if r = [] then Some [''%'' @ t @ ''%'']
     else (case strip_prefix '' AND '' r of
             None \<Rightarrow> None
           | Some u \<Rightarrow> map_option (Cons (''%'' @ t @ ''%'')) (scan_conditions u)))"
proof -
  have "like_clause t @ r =
      (''sentence LIKE '' @ [quote]) @ (double_quotes (''%'' @ t @ ''%'') @ quote # r)"
    unfolding like_clause_def double_quotes_percent [symmetric] by simp
  then have "strip_prefix (''sentence LIKE '' @ [quote]) (like_clause t @ r) =
      Some (double_quotes (''%'' @ t @ ''%'') @ quote # r)"
    by (simp only: strip_prefix_append)
  then show ?thesis
    by (subst scan_conditions.simps) (simp only: sql_literal_quoted [OF assms] option.case prod.case)
qed

lemma scan_join:
  assumes "ts \<noteq> []"
  shows "scan_conditions (str_join '' AND '' (map like_clause ts)) =
    Some (map (\<lambda>t. ''%'' @ t @ ''%'') ts)"
  using assms
proof (induction ts rule: induct_list012)
  case 1
  then show ?case by simp
next
  case (2 t)
  show ?case using scan_one [of "[]" t] by simp
next
  case (3 t u ts)
  have "str_join '' AND '' (map like_clause (t # u # ts)) =
      like_clause t @ '' AND '' @ str_join '' AND '' (map like_clause (u # ts))"
    by simp
  moreover have "hd ('' AND '' @ str_join '' AND '' (map like_clause (u # ts))) \<noteq> quote"
    by (simp add: quote_def)
  ultimately show ?case
    using 3(2) scan_one [of "'' AND '' @ str_join '' AND '' (map like_clause (u # ts))" t]
    by (simp only: strip_prefix_append) simp
qed

text \<open>The map of chunks always holds, under an identifier, the JSON text of a row with that
  identifier.\<close>

definition chunks_ok :: "json_text \<Rightarrow> chunk_map \<Rightarrow> bool" where
  "chunks_ok chunk_json m \<longleftrightarrow> (\<forall>k c. m k = Some c \<longrightarrow> (\<exists>name city. c = chunk_json k name city))"

lemma chunks_ok_empty [simp]: "chunks_ok chunk_json Map.empty"
  by (simp add: chunks_ok_def)

lemma extract_rows_ok:
  "extract_rows cj ks ns cs is m = (ids, m') \<Longrightarrow> chunks_ok cj m \<Longrightarrow> chunks_ok cj m'"
proof (induction cj ks ns cs "is" m arbitrary: ids m' rule: extract_rows.induct)
  case (2 cj ks ns cs i "is" m)
  let ?m = "m(ks ! i \<mapsto> cj (ks ! i) (ns ! i) (cs ! i))"
  obtain ids1 where run: "extract_rows cj ks ns cs is ?m = (ids1, m')"
    using "2.prems"(1) by (auto simp: Let_def split: prod.splits)
  have "chunks_ok cj ?m" using "2.prems"(2) by (auto simp: chunks_ok_def)
  with "2.IH" [OF refl run] show ?case .
qed simp

lemma extract_chunks_ok:
  "extract_chunks_from_stream cj stream m = Inr (ids, m') \<Longrightarrow> chunks_ok cj m \<Longrightarrow> chunks_ok cj m'"
proof (induction cj stream m arbitrary: ids m' rule: extract_chunks_from_stream.induct)
  case (3 cj batch stream m)
  then show ?case
    by (auto simp: result_simps split: prod.splits option.splits dest: extract_rows_ok)
qed auto

lemma drop_matching_ok: "chunks_ok cj m \<Longrightarrow> chunks_ok cj (drop_matching t m)"
  by (auto simp: chunks_ok_def drop_matching_def split: option.splits if_splits)

lemma lexical_pass_ok:
  "lexical_pass db cj tbl fs (ids, m) w = (Inr (ids', m'), w') \<Longrightarrow> chunks_ok cj m \<Longrightarrow> chunks_ok cj m'"
proof (induction fs arbitrary: ids m w)
  case Nil
  then show ?case by (simp add: io_ok_def)
next
  case (Cons f fs)
  show ?case
  proof (cases "strip_prefix ''NOT '' f")
    case None
    with Cons show ?thesis
      by (auto simp: result_simps io_lift_def dest: extract_chunks_ok)
  next
    case (Some t)
    with Cons show ?thesis by (auto dest: drop_matching_ok)
  qed
qed

lemma collect_ordered_sub: "(i, c) \<in> set (collect_ordered ids m) \<Longrightarrow> i \<in> set ids \<and> m i = Some c"
proof (induction ids arbitrary: m)
  case (Cons j ids)
  then show ?case
  proof (cases "m j")
    case (Some d)
    with Cons.prems consider "(i, c) = (j, d)" | "(i, c) \<in> set (collect_ordered ids (m(j := None)))"
      by auto
    then show ?thesis
    proof cases
      case 1
      with Some show ?thesis by simp
    next
      case 2
      from Cons.IH [OF this] show ?thesis by (auto split: if_splits)
    qed
  qed auto
qed simp

lemma collect_ordered_distinct: "distinct (map fst (collect_ordered ids m))"
proof (induction ids arbitrary: m)
  case (Cons i ids)
  then show ?case by (auto split: option.split dest: collect_ordered_sub)
qed simp

lemma collect_ordered_subseq: "subseq (map fst (collect_ordered ids m)) ids"
  by (induction ids arbitrary: m) (auto split: option.split)

lemma hybrid_ok:
  assumes "execute_hybrid_search_on_connection db cj order v conn fs w = (Inr out, w')"
  obtains tbl dense lexical m m0 w1 w2 where
    "out = collect_ordered (map fst (take 20 (fuse_ranked_candidates order dense lexical rrf_k))) m"
    "lexical_pass db cj tbl fs ([], m0) w1 = (Inr (lexical, m), w2)" "chunks_ok cj m0"
  using assms unfolding execute_hybrid_search_on_connection_def
  by (auto simp: result_simps io_lift_def io_ok_def dest!: extract_chunks_ok split: prod.splits)

lemma hybrid_chunk_texts:
  assumes "execute_hybrid_search_on_connection db cj order v conn fs w = (Inr out, w')"
  shows "\<forall>(i, c) \<in> set out. \<exists>name city. c = cj i name city"
proof -
  from assms obtain tbl dense lexical m m0 w1 w2 where
    out: "out = collect_ordered (map fst (take 20 (fuse_ranked_candidates order dense lexical rrf_k))) m"
    and pass: "lexical_pass db cj tbl fs ([], m0) w1 = (Inr (lexical, m), w2)"
    and "chunks_ok cj m0"
    by (rule hybrid_ok)
  then have "chunks_ok cj m" by (blast intro: lexical_pass_ok)
  then show ?thesis using collect_ordered_sub unfolding out chunks_ok_def by fast
qed

lemma fallback_chunk_texts:
  "execute_fallback_search db cj t uri w = (Inr m, w') \<Longrightarrow> chunks_ok cj m"
  by (auto simp: execute_fallback_search_def result_simps io_lift_def io_ok_def split: prod.splits
      dest: extract_chunks_ok)

text \<open>An exclusion that no search follows stays in force.\<close>

lemma lexical_pass_not_only:
  "\<forall>g \<in> set gs. prefix ''NOT '' g \<Longrightarrow> lexical_pass db cj tbl gs (ids, m) w = (Inr (ids', m'), w') \<Longrightarrow>
    m' \<subseteq>\<^sub>m m"
proof (induction gs arbitrary: m)
  case Nil
  then show ?case by (simp add: io_ok_def)
next
  case (Cons g gs)
  then obtain t where "strip_prefix ''NOT '' g = Some t"
    using strip_prefix_None [of "''NOT ''" g] by auto
  with Cons have "m' \<subseteq>\<^sub>m drop_matching t m" by simp
  moreover have "drop_matching t m \<subseteq>\<^sub>m m"
    by (auto simp: map_le_def drop_matching_def split: option.splits if_splits)
  ultimately show ?case by (rule map_le_trans)
qed

lemma lexical_pass_append:
  "lexical_pass db cj tbl (fs @ gs) (ids, m) w = (Inr (ids', m'), w') \<Longrightarrow>
    \<exists>ids1 m1 w1. lexical_pass db cj tbl gs (ids1, m1) w1 = (Inr (ids', m'), w')"
proof (induction fs arbitrary: ids m w)
  case Nil
  then show ?case by auto
next
  case (Cons f fs)
  then show ?case by (auto simp: result_simps io_lift_def split: option.splits prod.splits)
qed

section \<open>A database in memory\<close>

text \<open>For the witnesses: the outside is the table \<open>customers\<close> (or its absence), a row is an
  identifier, a name, a city and a sentence. The dense pass returns the first rows; a filter is
  matched by looking for its text, an identifier list by looking for the quoted identifier.\<close>

type_synonym demo_row = "string \<times> string \<times> string \<times> string"

definition demo_batch :: "demo_row list \<Rightarrow> row_batch" where
  "demo_batch rows = \<lparr>batch_len = length rows,
     string_column = (\<lambda>c. if c = ''kunnr'' then Some (map fst rows)
       else if c = ''name'' then Some (map (\<lambda>r. fst (snd r)) rows)
       else if c = ''city'' then Some (map (\<lambda>r. fst (snd (snd r))) rows)
       else if c = ''sentence'' then Some (map (\<lambda>r. snd (snd (snd r))) rows) else None)\<rparr>"

definition demo_match :: "string \<Rightarrow> demo_row \<Rightarrow> bool" where
  "demo_match sql r =
     (if prefix ''kunnr IN '' sql then str_contains sql (quote # fst r @ [quote])
      else str_contains (snd (snd (snd r))) (takeWhile (\<lambda>c. c \<noteq> CHR ''%'') (drop 16 sql)))"

definition demo_rows :: "customer_batch \<Rightarrow> demo_row list" where
  "demo_rows b = map (\<lambda>i. (col_kunnr b ! i, col_name b ! i, col_city b ! i, col_sentence b ! i))
     [0..<length (col_kunnr b)]"

definition demo_db :: "(demo_row list option, unit, unit) lancedb" where
  "demo_db = \<lparr>connect = (\<lambda>_. io_ok ()),
     open_table = (\<lambda>_ name w. if name = ''customers'' \<and> w \<noteq> None then (Inr (), w)
                              else (Inl (External ''Table not found''), w)),
     drop_table = (\<lambda>_ _ w. (Inr (), None)),
     nearest_to = (\<lambda>_ v n w. (Inr [Inr (demo_batch (take n (case w of None \<Rightarrow> [] | Some rows \<Rightarrow> rows)))], w)),
     only_if = (\<lambda>_ sql n w. (Inr [Inr (demo_batch (filter (demo_match sql)
                               (case w of None \<Rightarrow> [] | Some rows \<Rightarrow> rows)))], w)),
     count_rows = (\<lambda>_ w. (Inr (case w of None \<Rightarrow> 0 | Some rows \<Rightarrow> length rows), w)),
     list_indices = (\<lambda>_. io_ok []),
     create_index = (\<lambda>_ _ _. io_ok ()),
     merge_insert_new = (\<lambda>_ _ b w.
       (case w of
          None \<Rightarrow> (Inl (External ''Table not found''), w)
        | Some rows \<Rightarrow> (Inr (), Some (rows @ filter (\<lambda>r. fst r \<notin> fst ` set rows) (demo_rows b))))),
     create_table = (\<lambda>_ _ b w.
       (case w of
          None \<Rightarrow> (Inr (), Some (demo_rows b))
        | Some _ \<Rightarrow> (Inl (External ''Table already exists''), w)))\<rparr>"

definition demo_json :: json_text where
  "demo_json k name city = ''{'' @ k @ '' '' @ name @ '' '' @ city @ ''}''"

definition demo_table :: "demo_row list option" where
  "demo_table = Some [(''1000'', ''Acme'', ''Berlin'', ''Acme in Berlin''),
                      (''2000'', ''Beta'', ''Munich'', ''Beta in Munich'')]"

definition demo_search :: "string list \<Rightarrow> (err + (string \<times> string) list) \<times> demo_row list option" where
  "demo_search query_filters =
     execute_hybrid_search_on_connection demo_db demo_json (listing [''1000'', ''2000'']) [f32_one] ()
       query_filters demo_table"

section \<open>Properties\<close>

text \<open>C27: The fallback query cannot be broken out of: read back by the rules of SQL string literals,
  it is exactly the conjunction of one \<open>LIKE\<close> condition per word of the intent, each literal holding
  its word between wildcards whatever quotes the word contains; without words it is the condition
  that is never true.\<close>

theorem fallback_sql_literals:
  "if split_whitespace intent_text = [] then build_fallback_sql intent_text = ''1=0''
   else scan_conditions (build_fallback_sql intent_text) =
     Some (map (\<lambda>word. ''%'' @ word @ ''%'') (split_whitespace intent_text))"
  using scan_join [of "split_whitespace intent_text"] by (simp add: build_fallback_sql_def Let_def)



text \<open>C26: An exclusion \<open>NOT t\<close> that no positive filter follows is obeyed: no chunk of the result
  contains the excluded text, whatever the dense pass found.\<close>

theorem exclusion_obeyed:
  assumes "execute_hybrid_search_on_connection db chunk_json order v conn
      (fs @ (''NOT '' @ t) # gs) w = (Inr out, w')"
    and "\<forall>g \<in> set gs. prefix ''NOT '' g"
  shows "\<forall>(i, c) \<in> set out. \<not> str_contains c t"
proof -
  from assms(1) obtain tbl dense lexical m m0 w1 w2 where
    out: "out = collect_ordered (map fst (take 20 (fuse_ranked_candidates order dense lexical rrf_k))) m"
    and pass: "lexical_pass db chunk_json tbl (fs @ (''NOT '' @ t) # gs) ([], m0) w1 = (Inr (lexical, m), w2)"
    by (rule hybrid_ok)
  from lexical_pass_append [OF pass] obtain ids1 m1 w3 where
    "lexical_pass db chunk_json tbl ((''NOT '' @ t) # gs) (ids1, m1) w3 = (Inr (lexical, m), w2)"
    by blast
  then have "lexical_pass db chunk_json tbl gs (ids1, drop_matching t m1) w3 = (Inr (lexical, m), w2)"
    by (simp only: lexical_pass.simps strip_prefix_append option.case)
  from lexical_pass_not_only [OF assms(2) this] have le: "m \<subseteq>\<^sub>m drop_matching t m1" .
  show ?thesis
  proof clarify
    fix i c
    assume "(i, c) \<in> set out" "str_contains c t"
    then have "m i = Some c" using collect_ordered_sub out by blast
    with le have "drop_matching t m1 i = Some c" by (force simp: map_le_def)
    with \<open>str_contains c t\<close> show False
      by (auto simp: drop_matching_def split: option.splits if_splits)
  qed
qed

theorem exclusion_obeyed_witness:
  "demo_search [''Beta'', ''NOT Berlin''] = (Inr [(''2000'', ''{2000 Beta Munich}'')], demo_table) \<and>
   \<not> str_contains ''{2000 Beta Munich}'' ''Berlin''"
proof -
  have run: "demo_search [''Beta'', ''NOT Berlin''] = (Inr [(''2000'', ''{2000 Beta Munich}'')], demo_table)"
    by code_simp
  then have "execute_hybrid_search_on_connection demo_db demo_json (listing [''1000'', ''2000'']) [f32_one] ()
      ([''Beta''] @ (''NOT '' @ ''Berlin'') # []) demo_table = (Inr [(''2000'', ''{2000 Beta Munich}'')], demo_table)"
    by (simp add: demo_search_def)
  from exclusion_obeyed [OF this] run show ?thesis by simp
qed

text \<open>The order of the filters matters: an exclusion in front of a positive filter is undone when the
  positive filter's search brings the excluded row back.\<close>

theorem exclusion_undone:
  "demo_search [''NOT Berlin'', ''Acme''] =
     (Inr [(''1000'', ''{1000 Acme Berlin}''), (''2000'', ''{2000 Beta Munich}'')], demo_table)"
  by code_simp

text \<open>The vector index is built on large tables only.\<close>

lemma vector_index_threshold:
  "create_vector_index db tbl col w =
     (case count_rows db tbl w of
        (Inl e, w') \<Rightarrow> (Inl e, w')
      | (Inr n, w') \<Rightarrow> if n < 256 then (Inr (), w') else create_index db tbl [col] Auto w')"
  by (simp add: create_vector_index_def io_try_def io_ok_def split: prod.split sum.split)

end
