(* ===== verification/Prompts.thy ===== *)
theory Prompts
  imports Types
begin

text \<open>
  \<open>src/pipelines/query/prompts.rs\<close>: the texts sent to the language model. The literals are the
  source's, line by line.
\<close>

definition dq :: char where "dq = CHR 0x22"

type_synonym chunk_list = "(string \<times> string) list"

definition sap_kna1_schema :: string where
  "sap_kna1_schema =
     ''Database Schema for table `kna1`:'' @ [nl] @
     ''- kunnr (String): Customer Number / ID'' @ [nl] @
     ''- name1 (String): Customer Name'' @ [nl] @
     ''- ort01 (String): City'' @ [nl] @
     ''- land1 (String): Country Code (e.g., '' @ [quote] @ ''US'' @ [quote] @ '', '' @
     [quote] @ ''DE'' @ [quote] @ '')'' @ [nl]"

definition build_routing_prompt :: "string \<Rightarrow> string" where
  "build_routing_prompt user_question =
     ''You are an expert SAP data engineer. Read the user'' @ [quote] @ ''s question and decide if it requires exact SQL or SEMANTIC search.'' @
     [nl] @
     [nl] @
     sap_kna1_schema @ [nl] @
     ''RULES:'' @ [nl] @
     ''1. You must ONLY output raw JSON. Do not wrap it in markdown. Do not add conversational text.'' @
     [nl] @
     ''2. The JSON must have one key: '' @ [dq] @ ''route'' @ [dq] @ '' (either '' @ [dq] @
     ''SQL'' @ [dq] @ '' or '' @ [dq] @ ''SEMANTIC'' @ [dq] @ '').'' @ [nl] @
     [nl] @
     ''Examples:'' @ [nl] @
     ''Q: '' @ [dq] @ ''How many customers are in Berlin?'' @ [dq] @ [nl] @
     ''A: {'' @ [dq] @ ''route'' @ [dq] @ '': '' @ [dq] @ ''SQL'' @ [dq] @ ''}'' @ [nl] @
     [nl] @
     ''Q: '' @ [dq] @ ''Show me the names of 5 customers in the US.'' @ [dq] @ [nl] @
     ''A: {'' @ [dq] @ ''route'' @ [dq] @ '': '' @ [dq] @ ''SQL'' @ [dq] @ ''}'' @ [nl] @
     [nl] @
     ''Q: '' @ [dq] @ ''Find customers who are large tech manufacturers.'' @ [dq] @ [nl] @
     ''A: {'' @ [dq] @ ''route'' @ [dq] @ '': '' @ [dq] @ ''SEMANTIC'' @ [dq] @ ''}'' @
     [nl] @
     [nl] @
     ''User Question: '' @ [dq] @ user_question @ [dq] @ [nl] @
     ''A: ''"

definition build_sql_prompt :: "string \<Rightarrow> string" where
  "build_sql_prompt user_question =
     ''You are an expert SAP data engineer. Read the user'' @ [quote] @ ''s question and write the exact SQL query required.'' @
     [nl] @
     [nl] @
     sap_kna1_schema @ [nl] @
     ''RULES:'' @ [nl] @
     ''1. You must ONLY output raw JSON. Do not wrap it in markdown. Do not add conversational text.'' @
     [nl] @
     ''2. The JSON must have one key: '' @ [dq] @ ''query'' @ [dq] @ '' containing the generated SQL string.'' @
     [nl] @
     [nl] @
     ''User Question: '' @ [dq] @ user_question @ [dq] @ [nl] @
     ''A: ''"

definition chunk_context :: "chunk_list \<Rightarrow> string" where
  "chunk_context chunks =
     concat (map (\<lambda>(i, txt).
     ''CHUNK ID: '' @ i @ [nl] @
     ''TEXT: '' @ txt @ [nl] @
     [nl]) chunks)"

definition semantic_rules_head :: string where
  "semantic_rules_head =
     ''You are an expert SAP data engineer. Answer the user'' @ [quote] @ ''s question using ONLY the provided chunks.'' @
     [nl] @
     [nl] @
     ''CONTEXT:'' @ [nl]"

definition semantic_rules_tail :: string where
  "semantic_rules_tail =
     [nl] @
     [nl] @
     ''RULES:'' @ [nl] @
     ''1. You must ONLY output raw JSON. Do not wrap it in markdown. Do not add conversational text.'' @
     [nl] @
     ''2. The JSON must exactly match this schema:'' @ [nl] @
     ''{'' @ [nl] @
     [dq] @ ''answer_found'' @ [dq] @ '': boolean,'' @ [nl] @
     [dq] @ ''answer'' @ [dq] @ '': '' @ [dq] @ ''your detailed answer based ONLY on the text'' @
     [dq] @ '','' @ [nl] @
     [dq] @ ''exact_quote'' @ [dq] @ '': '' @ [dq] @ ''a verbatim, exact substring from the chunk that proves your answer'' @
     [dq] @ '','' @ [nl] @
     [dq] @ ''source_chunk_id'' @ [dq] @ '': '' @ [dq] @ ''the specific CHUNK ID you extracted the quote from'' @
     [dq] @ [nl] @
     ''}'' @ [nl] @
     ''3. If the answer is not found in the chunks, set `answer_found` to false, and leave the other fields blank.'' @
     [nl] @
     [nl]"

definition build_semantic_prompt :: "string \<Rightarrow> chunk_list \<Rightarrow> string" where
  "build_semantic_prompt user_question chunks =
     semantic_rules_head @ chunk_context chunks @ semantic_rules_tail @
     ''User Question: '' @ [dq] @ user_question @ [dq] @ [nl] @
     ''A: ''"

definition build_question_parser_prompt :: "string \<Rightarrow> string" where
  "build_question_parser_prompt user_question =
     ''You are an expert SAP data engineer. Your task is to parse the user'' @ [quote] @
     ''s question into pure semantic intent and explicit filters.'' @ [nl] @
     [nl] @
     ''RULES:'' @ [nl] @
     ''1. You must ONLY output raw JSON. Do not wrap it in markdown. Do not add conversational text.'' @
     [nl] @
     ''2. The JSON must exactly match this schema:'' @ [nl] @
     ''{'' @ [nl] @
     [dq] @ ''intent'' @ [dq] @ '': '' @ [dq] @ ''The pure semantic meaning, without hard IDs or strict exclusions'' @
     [dq] @ '','' @ [nl] @
     [dq] @ ''filters'' @ [dq] @ '': ['' @ [dq] @ ''EXACT_ID_1'' @ [dq] @ '', '' @ [dq] @
     ''NOT EXACT_ID_2'' @ [dq] @ '']'' @ [nl] @
     ''}'' @ [nl] @
     ''3. If there are no explicit IDs or exclusions, leave the `filters` array empty.'' @
     [nl] @
     [nl] @
     ''Examples:'' @ [nl] @
     ''Q: '' @ [dq] @ ''Which customer in Berlin is NOT KUNNR 1000?'' @ [dq] @ [nl] @
     ''A: {'' @ [dq] @ ''intent'' @ [dq] @ '': '' @ [dq] @ ''customer in Berlin'' @ [dq] @
     '', '' @ [dq] @ ''filters'' @ [dq] @ '': ['' @ [dq] @ ''NOT KUNNR 1000'' @ [dq] @
     '']}'' @ [nl] @
     [nl] @
     ''Q: '' @ [dq] @ ''Find SAP customer 00001042.'' @ [dq] @ [nl] @
     ''A: {'' @ [dq] @ ''intent'' @ [dq] @ '': '' @ [dq] @ ''Find SAP customer'' @ [dq] @
     '', '' @ [dq] @ ''filters'' @ [dq] @ '': ['' @ [dq] @ ''00001042'' @ [dq] @ '']}'' @
     [nl] @
     [nl] @
     ''User Question: '' @ [dq] @ user_question @ [dq] @ [nl] @
     ''A: ''"

section \<open>Facts\<close>

lemma chunk_context_append [simp]:
  "chunk_context (xs @ ys) = chunk_context xs @ chunk_context ys"
  by (simp add: chunk_context_def)

lemma chunk_context_Cons:
  "chunk_context ((i, txt) # cs) =
     ''CHUNK ID: '' @ i @ [nl] @ ''TEXT: '' @ txt @ [nl] @ [nl] @ chunk_context cs"
  by (simp add: chunk_context_def)

lemma chunk_in_context:
  assumes "(i, txt) \<in> set cs"
  shows "\<exists>before after. chunk_context cs =
    before @ ''CHUNK ID: '' @ i @ [nl] @ ''TEXT: '' @ txt @ [nl] @ [nl] @ after"
proof -
  obtain xs ys where "cs = xs @ (i, txt) # ys" using assms by (auto simp: in_set_conv_decomp)
  then have "chunk_context cs =
      chunk_context xs @ ''CHUNK ID: '' @ i @ [nl] @ ''TEXT: '' @ txt @ [nl] @ [nl] @ chunk_context ys"
    by (simp only: chunk_context_append chunk_context_Cons)
  then show ?thesis by blast
qed

end
