(* ===== verification/Firewall.thy ===== *)
theory Firewall
  imports Types
begin

text \<open>
  \<open>src/pipelines/query/firewall.rs\<close>: unwrapping the JSON a language model returns, and the check
  that a positive answer quotes one of the retrieved chunks verbatim. The deserialiser (serde) of
  each target type is a parameter.
\<close>

section \<open>Unwrapping\<close>

definition fence :: string where "fence = ''```''"
definition json_fence :: string where "json_fence = ''```json''"

definition strip_opening :: "string \<Rightarrow> string" where
  "strip_opening s =
     (case strip_prefix (json_fence @ [nl]) s of
        Some t \<Rightarrow> t
      | None \<Rightarrow>
     (case strip_prefix json_fence s of
        Some t \<Rightarrow> t
      | None \<Rightarrow>
     (case strip_prefix (fence @ [nl]) s of
        Some t \<Rightarrow> t
      | None \<Rightarrow>
     (case strip_prefix fence s of
        Some t \<Rightarrow> t
      | None \<Rightarrow> s))))"

definition strip_closing :: "string \<Rightarrow> string" where
  "strip_closing s = (case strip_suffix fence s of Some t \<Rightarrow> t | None \<Rightarrow> s)"

definition clean_json :: "string \<Rightarrow> string" where
  "clean_json raw_output = trim (strip_closing (trim (strip_opening (trim raw_output))))"

type_synonym 'a deserializer = "string \<Rightarrow> string + 'a"

definition parse_llm_json :: "'a deserializer \<Rightarrow> string \<Rightarrow> 'a result" where
  "parse_llm_json from_str raw_output =
     map_err (\<lambda>e. BadJson e (clean_json raw_output)) (from_str (clean_json raw_output))"

section \<open>Verification\<close>

type_synonym chunks = "(string \<times> string) list"

definition verify_and_parse_llm_generation ::
  "semantic_response deserializer \<Rightarrow> string \<Rightarrow> chunks \<Rightarrow> semantic_response result" where
  "verify_and_parse_llm_generation from_str raw_output retrieved =
     try_res (parse_llm_json from_str raw_output) (\<lambda>r.
       if answer_found r then
         (case find (\<lambda>(i, _). i = source_chunk_id r) retrieved of
            None \<Rightarrow> Inl (UnknownChunk (source_chunk_id r))
          | Some (_, source_text) \<Rightarrow>
              if \<not> str_contains source_text (exact_quote r) then Inl (Hallucination (exact_quote r))
              else Inr r)
       else Inr r)"

section \<open>White space around a text\<close>

text \<open>Text made of Unicode white space, and characters whose byte is part of none.\<close>

definition is_ws :: "string \<Rightarrow> bool" where
  "is_ws s \<longleftrightarrow> (\<exists>es. set es \<subseteq> set ws_encodings \<and> s = concat es)"

definition plain :: "char \<Rightarrow> bool" where
  "plain c \<longleftrightarrow> c \<notin> set (map hd ws_encodings) \<and> c \<notin> set (map last ws_encodings)"

definition prefix_free :: "string list \<Rightarrow> bool" where
  "prefix_free encs \<longleftrightarrow> list_all (\<lambda>a. a \<noteq> [] \<and> list_all (\<lambda>b. prefix a b \<longrightarrow> a = b) encs) encs"

lemma ws_prefix_free: "prefix_free ws_encodings" "prefix_free (map rev ws_encodings)"
  by code_simp+

lemma ws_nonempty: "e \<in> set ws_encodings \<Longrightarrow> e \<noteq> []"
  using ws_prefix_free(1) by (simp add: prefix_free_def list_all_iff)

lemma plain_chars: "plain (CHR ''{'')" "plain (CHR ''}'')" "plain (CHR ''`'')"
  by code_simp+

lemma ws_at_encoding:
  assumes "prefix_free encs" "e \<in> set encs"
  shows "ws_at encs (e @ s) = Some e"
proof -
  from assms have "e \<noteq> []" by (simp add: prefix_free_def list_all_iff)
  then have "ws_at encs (e @ s) \<noteq> None" using assms(2) by (auto simp: ws_at_None)
  then obtain d where d: "ws_at encs (e @ s) = Some d" by blast
  then have "d \<in> set encs" "prefix d (e @ s)" by (auto dest: ws_at_SomeD)
  moreover have "prefix d e \<or> prefix e d"
    using \<open>prefix d (e @ s)\<close> prefix_same_cases [of d "e @ s" e] by auto
  ultimately have "d = e" using assms by (auto simp: prefix_free_def list_all_iff)
  with d show ?thesis by simp
qed

lemma strip_ws_concat:
  assumes "prefix_free encs" "set es \<subseteq> set encs"
  shows "strip_ws encs (concat es @ s) = strip_ws encs s"
  using assms(2)
proof (induction es)
  case Nil
  then show ?case by simp
next
  case (Cons e es)
  then have "ws_at encs (e @ concat es @ s) = Some e"
    using assms(1) by (intro ws_at_encoding) simp_all
  with Cons show ?case by (simp add: strip_ws.simps [of encs "e @ concat es @ s"])
qed

lemma plain_start: "plain c \<Longrightarrow> ws_at ws_encodings (c # s) = None"
  using ws_nonempty by (force simp: ws_at_None plain_def prefix_Cons)

lemma plain_end: "plain c \<Longrightarrow> ws_at (map rev ws_encodings) (c # s) = None"
  using ws_nonempty by (force simp: ws_at_None plain_def prefix_Cons last_rev rev_swap)

text \<open>Trimming removes exactly the white space around a text that starts and ends plain.\<close>

lemma trim_core:
  assumes "is_ws a" "is_ws b" "x \<noteq> []" "plain (hd x)" "plain (last x)"
  shows "trim (a @ x @ b) = x"
proof -
  obtain es fs where es: "set es \<subseteq> set ws_encodings" "a = concat es"
    and fs: "set fs \<subseteq> set ws_encodings" "b = concat fs"
    using assms(1,2) by (auto simp: is_ws_def)
  obtain c cs where x: "x = c # cs" using assms(3) by (cases x) auto
  have "trim_start (a @ x @ b) = x @ b"
    using es assms(4) by (simp add: trim_start_def strip_ws_concat ws_prefix_free x strip_ws_fix plain_start)
  moreover have "trim_end (x @ b) = x"
  proof -
    have "rev b = concat (map rev (rev fs))" by (simp add: fs rev_concat)
    moreover have "set (map rev (rev fs)) \<subseteq> set (map rev ws_encodings)" using fs by auto
    ultimately have "strip_ws (map rev ws_encodings) (rev b @ rev x) =
        strip_ws (map rev ws_encodings) (rev x)"
      using strip_ws_concat ws_prefix_free(2) by metis
    also have "rev x = last x # tl (rev x)"
      using assms(3) by (metis hd_rev list.collapse rev_is_Nil_conv)
    then have "strip_ws (map rev ws_encodings) (rev x) = rev x"
      using plain_end [OF assms(5)] strip_ws_fix by metis
    finally show ?thesis by (simp add: trim_end_def)
  qed
  ultimately show ?thesis by (simp add: trim_def)
qed

lemma is_ws_Nil [simp]: "is_ws []"
  by (auto simp: is_ws_def intro: exI [of _ "[]"])

lemma is_ws_append: "is_ws a \<Longrightarrow> is_ws b \<Longrightarrow> is_ws (a @ b)"
  by (auto simp: is_ws_def) (metis Un_subset_iff concat_append set_append)

lemma is_ws_tl_nl:
  assumes "is_ws (nl # w)"
  shows "is_ws w"
proof -
  obtain es where es: "set es \<subseteq> set ws_encodings" "nl # w = concat es"
    using assms by (auto simp: is_ws_def)
  then obtain e es' where e: "es = e # es'" by (cases es) auto
  have "[nl] \<in> set ws_encodings" by code_simp
  from ws_at_encoding [OF ws_prefix_free(1) this, of w] have "ws_at ws_encodings (nl # w) = Some [nl]"
    by simp
  moreover have "ws_at ws_encodings (nl # w) = Some e"
    using es e ws_at_encoding [OF ws_prefix_free(1), of e] by simp
  ultimately have "e = [nl]" by simp
  then have "w = concat es'" using es e by auto
  then show ?thesis using es e by (auto simp: is_ws_def)
qed

lemma is_ws_hd: "is_ws w \<Longrightarrow> w \<noteq> [] \<Longrightarrow> \<not> plain (hd w)"
  using ws_nonempty by (auto simp: is_ws_def plain_def neq_Nil_conv) (metis concat.simps(2) hd_append2 image_eqI insert_subset list.exhaust list.sel(1) list.set(2) concat.simps(1) list.distinct(1))

section \<open>Fences are transparent\<close>

text \<open>The text of a JSON value a model is asked for: it starts with one brace and ends with the
  other.\<close>

definition braced :: "string \<Rightarrow> bool" where
  "braced p \<longleftrightarrow> (\<exists>body. p = CHR ''{'' # body @ [CHR ''}''])"

lemma braced_ends: "braced p \<Longrightarrow> p \<noteq> [] \<and> hd p = CHR ''{'' \<and> last p = CHR ''}''"
  by (auto simp: braced_def)

lemma fence_ends: "fence \<noteq> []" "hd fence = CHR ''`''" "last fence = CHR ''`''"
  by (simp_all add: fence_def)

lemma json_fence_eq: "json_fence = fence @ ''json''"
  by (simp add: json_fence_def fence_def)

lemma strip_prefix_hd: "q \<noteq> [] \<Longrightarrow> hd q \<noteq> hd s \<Longrightarrow> strip_prefix q s = None"
  by (cases q; cases s) (auto simp: strip_prefix_None)

lemma strip_prefix_shift: "strip_prefix (pre @ q) (pre @ s) = strip_prefix q s"
  by (simp add: strip_prefix_def)

lemma strip_opening_bare: "braced p \<Longrightarrow> strip_opening (p @ s) = p @ s"
  using braced_ends [of p] by (simp add: strip_opening_def strip_prefix_hd json_fence_def fence_def)

lemma ws_then_braced_hd:
  assumes "is_ws w" "braced p" "plain c" "c \<noteq> CHR ''{''"
  shows "hd (w @ p @ s) \<noteq> c"
  using is_ws_hd [OF assms(1)] braced_ends [OF assms(2)] assms(3,4) by (cases w) auto

lemma strip_newline:
  assumes "is_ws w" "braced p"
  shows "\<exists>w'. is_ws w' \<and> (case strip_prefix [nl] (w @ p @ s) of Some t \<Rightarrow> t | None \<Rightarrow> w @ p @ s) = w' @ p @ s"
proof (cases "\<exists>w'. w = nl # w'")
  case True
  then obtain w' where "w = nl # w'" by blast
  then show ?thesis using is_ws_tl_nl [of w'] assms(1)
    by (intro exI [of _ w']) (simp add: strip_prefix_def)
next
  case False
  have "hd p \<noteq> nl" "p \<noteq> []" using braced_ends [OF assms(2)] by (simp_all add: nl_def)
  with False have "strip_prefix [nl] (w @ p @ s) = None"
    by (cases w; cases p) (auto simp: strip_prefix_None)
  then show ?thesis using assms(1) by auto
qed

lemma strip_opening_json:
  assumes "is_ws w" "braced p"
  shows "\<exists>w'. is_ws w' \<and> strip_opening (json_fence @ w @ p @ s) = w' @ p @ s"
  using strip_newline [OF assms, of s]
  by (simp add: strip_opening_def strip_prefix_shift split: option.splits)

lemma strip_opening_fence:
  assumes "is_ws w" "braced p"
  shows "\<exists>w'. is_ws w' \<and> strip_opening (fence @ w @ p @ s) = w' @ p @ s"
proof -
  have "plain (CHR ''j'')" by code_simp
  then have "hd (w @ p @ s) \<noteq> CHR ''j''" by (intro ws_then_braced_hd assms) simp_all
  then have "strip_prefix (json_fence @ q) (fence @ w @ p @ s) = None" for q
    by (simp add: json_fence_eq strip_prefix_shift strip_prefix_hd)
  from this [of "[nl]"] this [of "[]"] show ?thesis
    using strip_newline [OF assms, of s]
    by (simp add: strip_opening_def strip_prefix_shift split: option.splits)
qed

lemma strip_closing_cases:
  assumes "braced p" "is_ws w" "c \<in> {[], fence}" and that: "is_ws w0" "is_ws b"
  shows "trim (strip_closing (trim (w0 @ p @ w @ c @ b))) = p"
proof (cases "c = []")
  case True
  have "trim (w0 @ p @ w @ b) = p"
    using trim_core [of w0 "w @ b" p] that braced_ends [OF assms(1)]
    by (simp add: is_ws_append assms(2) plain_chars)
  moreover have "strip_suffix fence p = None"
    using assms(1) by (auto simp: braced_def fence_def strip_suffix_None suffix_def)
  moreover have "trim p = p"
    using trim_core [of "[]" "[]" p] braced_ends [OF assms(1)] by (simp add: plain_chars)
  ultimately show ?thesis using True by (simp add: strip_closing_def)
next
  case False
  then have c: "c = fence" using assms(3) by simp
  have "trim (w0 @ (p @ w @ fence) @ b) = p @ w @ fence"
    using that braced_ends [OF assms(1)] fence_ends
    by (intro trim_core) (simp_all add: plain_chars)
  then have "trim (strip_closing (trim (w0 @ p @ w @ c @ b))) = trim (p @ w)"
    using strip_suffix_append [of fence "p @ w"] by (simp add: strip_closing_def c)
  also have "\<dots> = p"
    using trim_core [of "[]" w p] braced_ends [OF assms(1)] by (simp add: plain_chars assms(2))
  finally show ?thesis .
qed

lemma clean_json_fenced:
  assumes "braced p" "is_ws a" "is_ws w1" "is_ws w2" "is_ws b" "pre \<in> {[], json_fence, fence}"
    "c \<in> {[], fence}"
  shows "clean_json (a @ pre @ w1 @ p @ w2 @ c @ b) = p"
proof -
  define tl1 where "tl1 = (if c = [] then [] else w2 @ c)"
  define body where "body = (if pre = [] then p @ tl1 else pre @ w1 @ p @ tl1)"
  have p: "p \<noteq> []" "hd p = CHR ''{''" "last p = CHR ''}''" using braced_ends [OF assms(1)] by simp_all
  have tl1: "tl1 = [] \<or> last tl1 = CHR ''`''" using assms(7) fence_ends by (auto simp: tl1_def)
  have pre: "pre \<noteq> [] \<longrightarrow> hd pre = CHR ''`''" using assms(6) by (auto simp: json_fence_def fence_def)
  have "trim ((if pre = [] then a @ w1 else a) @ body @ (if c = [] then w2 @ b else b)) = body"
  proof (rule trim_core)
    show "is_ws (if pre = [] then a @ w1 else a)" "is_ws (if c = [] then w2 @ b else b)"
      using assms by (simp_all add: is_ws_append)
    show "body \<noteq> []" using p by (simp add: body_def)
    show "plain (hd body)" using p pre by (auto simp: body_def plain_chars)
    show "plain (last body)" using p tl1 by (cases "tl1 = []") (auto simp: body_def plain_chars)
  qed
  moreover have "(if pre = [] then a @ w1 else a) @ body @ (if c = [] then w2 @ b else b) =
      a @ pre @ w1 @ p @ w2 @ c @ b"
    by (simp add: body_def tl1_def)
  ultimately have "trim (a @ pre @ w1 @ p @ w2 @ c @ b) = body" by simp
  moreover have "\<exists>w'. is_ws w' \<and> strip_opening body = w' @ p @ tl1"
    using assms(6) strip_opening_bare [OF assms(1), of tl1] strip_opening_json [OF assms(3,1), of tl1]
      strip_opening_fence [OF assms(3,1), of tl1] is_ws_Nil
    by (auto simp: body_def intro: exI [of _ "[]"])
  then obtain w' where "is_ws w'" "strip_opening body = w' @ p @ tl1" by blast
  moreover have "trim (strip_closing (trim (w' @ p @ tl1))) = p"
    using strip_closing_cases [OF assms(1,4,7) \<open>is_ws w'\<close> is_ws_Nil]
      strip_closing_cases [OF assms(1) is_ws_Nil assms(7) \<open>is_ws w'\<close> is_ws_Nil]
    by (auto simp: tl1_def split: if_splits)
  ultimately show ?thesis by (simp add: clean_json_def)
qed

lemma parse_clean: "clean_json raw = clean_json raw' \<Longrightarrow> parse_llm_json d raw = parse_llm_json d raw'"
  by (simp add: parse_llm_json_def)

lemma clean_json_braced: "braced p \<Longrightarrow> clean_json p = p"
  using clean_json_fenced [of p "[]" "[]" "[]" "[]" "[]" "[]"] by simp

lemma find_key: "find (\<lambda>(i, _). i = k) cs = map_option (Pair k) (map_of cs k)"
  by (induction cs) auto

lemma verify_eq:
  "verify_and_parse_llm_generation d raw retrieved =
     (case parse_llm_json d raw of
        Inl e \<Rightarrow> Inl e
      | Inr r \<Rightarrow>
          if \<not> answer_found r then Inr r
          else (case map_of retrieved (source_chunk_id r) of
                  None \<Rightarrow> Inl (UnknownChunk (source_chunk_id r))
                | Some source \<Rightarrow>
                    if str_contains source (exact_quote r) then Inr r
                    else Inl (Hallucination (exact_quote r))))"
  by (simp add: verify_and_parse_llm_generation_def find_key split: sum.split option.split)

lemma verify_ok_iff:
  "verify_and_parse_llm_generation d raw retrieved = Inr r \<longleftrightarrow>
     parse_llm_json d raw = Inr r \<and>
     (answer_found r \<longrightarrow>
        (\<exists>source. map_of retrieved (source_chunk_id r) = Some source \<and>
           str_contains source (exact_quote r)))"
  by (auto simp: verify_eq split: sum.splits option.splits if_splits)

section \<open>Properties\<close>

text \<open>C39: Wrapping a JSON object in a markdown fence changes nothing: with any white space anywhere
  around it, with or without an opening fence (with or without the word \<open>json\<close>) and with or without
  a closing one, the output of the model is parsed exactly as the bare object would be.\<close>

theorem fences_transparent:
  assumes "braced p" "is_ws a" "is_ws w1" "is_ws w2" "is_ws b"
    and "before \<in> {[], ''```json'', ''```''}" "closing \<in> {[], ''```''}"
  shows "parse_llm_json d (a @ before @ w1 @ p @ w2 @ closing @ b) = map_err (\<lambda>e. BadJson e p) (d p)"
  using clean_json_fenced [of p a w1 w2 b before closing] assms
  by (simp add: parse_llm_json_def json_fence_def fence_def)

theorem fences_transparent_witness:
  "parse_llm_json Inr (''  '' @ ''```json'' @ [nl] @ ''{1}'' @ [nl] @ ''```'' @ [nl]) = Inr ''{1}''"
proof -
  have enc: "[nl] \<in> set ws_encodings" "'' '' \<in> set ws_encodings" by code_simp+
  then have "is_ws [nl]" "is_ws ''  ''"
    unfolding is_ws_def by (intro exI [of _ "[[nl]]"] exI [of _ "['' '', '' '']"]; simp)+
  moreover have "braced ''{1}''" by (simp add: braced_def)
  ultimately show ?thesis
    using fences_transparent [of "''{1}''" "''  ''" "[nl]" "[nl]" "[nl]" "''```json''" "''```''" Inr]
    by simp
qed

text \<open>C3: The anti-hallucination check: an output that is accepted and claims an answer quotes a
  chunk that was retrieved - the chunk it cites exists and contains the quote verbatim - and an
  output that parses is refused only for citing an unknown chunk or for a quote that is not there.\<close>

theorem verified_answer_grounded:
  "verify_and_parse_llm_generation d raw retrieved =
     (case parse_llm_json d raw of
        Inl e \<Rightarrow> Inl e
      | Inr r \<Rightarrow>
          if \<not> answer_found r then Inr r
          else (case map_of retrieved (source_chunk_id r) of
                  None \<Rightarrow> Inl (UnknownChunk (source_chunk_id r))
                | Some source \<Rightarrow>
                    if \<exists>before after. source = before @ exact_quote r @ after then Inr r
                    else Inl (Hallucination (exact_quote r))))"
  by (simp add: verify_eq str_contains_iff split: sum.split option.split)

text \<open>An empty quote is a substring of every chunk, so an answer that names any retrieved chunk and
  quotes nothing passes the check whatever it claims.\<close>

theorem empty_quote_accepted:
  assumes "parse_llm_json d raw = Inr r" "exact_quote r = []"
    and "source_chunk_id r \<in> fst ` set retrieved"
  shows "verify_and_parse_llm_generation d raw retrieved = Inr r"
proof -
  obtain source where "map_of retrieved (source_chunk_id r) = Some source"
    using assms(3) by (metis map_of_eq_None_iff not_Some_eq)
  with assms(1,2) show ?thesis by (simp add: verify_ok_iff str_contains_def)
qed

end
