(* ===== verification/Llm.thy ===== *)
theory Llm
  imports Prompts Firewall
begin

text \<open>
  \<open>src/pipelines/query/ollama.rs\<close> and \<open>intent.rs\<close>: the client of the language model, with its one
  retry, and the parsing of a question into intent and filters; \<open>classify_intent\<close> of
  \<open>router.rs\<close> stands here too. The HTTP client (reqwest) is a parameter over the outside's state.
\<close>

section \<open>The client\<close>

record ollama_request =
  req_model :: string
  req_prompt :: string
  req_stream :: bool

record ollama_client =
  client_timeout :: nat
  base_url :: string
  model_name :: string

text \<open>\<open>send\<close> posts the request with the client's timeout; \<open>body_text\<close> reads and decodes the body of
  a response, the \<open>response\<close> field of \<open>OllamaResponse\<close>. \<open>sleep_ms\<close> lets time pass.\<close>

record ('w, 'res) http =
  build_client :: "nat \<Rightarrow> string + unit"
  get_status :: "string \<Rightarrow> nat \<Rightarrow> ('w, string, nat) io"
  send :: "string \<Rightarrow> nat \<Rightarrow> ollama_request \<Rightarrow> ('w, string, 'res) io"
  body_text :: "'res \<Rightarrow> ('w, string, string) io"
  sleep_ms :: "nat \<Rightarrow> 'w \<Rightarrow> 'w"

definition init_from_env_or_default :: "('w, 'res) http \<Rightarrow> env \<Rightarrow> ollama_client result" where
  "init_from_env_or_default http env =
     (let url = env_string env ''OLLAMA_HOST'' ''http://localhost:11434'';
          timeout_secs = env_usize env ''OLLAMA_TIMEOUT_SECS'' 10;
          m = env_string env ''OLLAMA_MODEL'' ''llama3.2:latest''
      in try_res (map_err (\<lambda>e. External (''Failed to build HTTP client: '' @ e)) (build_client http timeout_secs))
           (\<lambda>_. Inr \<lparr>client_timeout = timeout_secs, base_url = url, model_name = m\<rparr>))"

definition is_success :: "nat \<Rightarrow> bool" where
  "is_success status \<longleftrightarrow> 200 \<le> status \<and> status < 300"

definition is_healthy :: "('w, 'res) http \<Rightarrow> ollama_client \<Rightarrow> 'w \<Rightarrow> bool \<times> 'w" where
  "is_healthy http client w =
     (case get_status http (base_url client @ ''/api/tags'') 2 w of
        (Inr status, w') \<Rightarrow> (is_success status, w')
      | (Inl _, w') \<Rightarrow> (False, w'))"

text \<open>\<open>for attempt in 0..2\<close>: the loop runs over the attempts that are left.\<close>

fun attempt_loop ::
  "('w, 'res) http \<Rightarrow> ollama_client \<Rightarrow> string \<Rightarrow> ollama_request \<Rightarrow> nat list \<Rightarrow> string option
     \<Rightarrow> ('w, err, string) io" where
  "attempt_loop http client url req [] last_err w =
     (Inl (LlmUnreachable url (case last_err of None \<Rightarrow> [] | Some e \<Rightarrow> e)), w)"
| "attempt_loop http client url req (attempt # rest) last_err w =
     (let w1 = (if 0 < attempt then sleep_ms http 500 w else w) in
      case send http url (client_timeout client) req w1 of
        (Inr res, w2) \<Rightarrow>
          (case body_text http res w2 of
             (Inr text, w3) \<Rightarrow> (Inr text, w3)
           | (Inl e, w3) \<Rightarrow> (Inl (External e), w3))
      | (Inl e, w2) \<Rightarrow> attempt_loop http client url req rest (Some e) w2)"

definition prompt_model :: "('w, 'res) http \<Rightarrow> ollama_client \<Rightarrow> string \<Rightarrow> ('w, err, string) io" where
  "prompt_model http client prompt =
     attempt_loop http client (base_url client @ ''/api/generate'')
       \<lparr>req_model = model_name client, req_prompt = prompt, req_stream = False\<rparr> [0, 1] None"

section \<open>Questions\<close>

definition parse_question_intent ::
  "('w, 'res) http \<Rightarrow> ollama_client \<Rightarrow> parsed_question deserializer \<Rightarrow> string
     \<Rightarrow> ('w, err, parsed_question) io" where
  "parse_question_intent http client from_str user_question =
     io_try (prompt_model http client (build_question_parser_prompt user_question)) (\<lambda>raw.
     io_lift (parse_llm_json from_str raw))"

definition classify_intent ::
  "('w, 'res) http \<Rightarrow> ollama_client \<Rightarrow> router_decision deserializer \<Rightarrow> string
     \<Rightarrow> ('w, err, router_decision) io" where
  "classify_intent http client from_str user_question =
     io_try (prompt_model http client (build_routing_prompt user_question)) (\<lambda>raw.
     io_lift (parse_llm_json from_str raw))"

section \<open>Facts\<close>

lemma prompt_model_eq:
  "prompt_model http client prompt w =
     (let url = base_url client @ ''/api/generate'';
          req = \<lparr>req_model = model_name client, req_prompt = prompt, req_stream = False\<rparr>;
          decode = (\<lambda>res w. case body_text http res w of
                       (Inr text, w') \<Rightarrow> (Inr text, w') | (Inl e, w') \<Rightarrow> (Inl (External e), w'))
      in case send http url (client_timeout client) req w of
           (Inr res, w1) \<Rightarrow> decode res w1
         | (Inl _, w1) \<Rightarrow>
             (case send http url (client_timeout client) req (sleep_ms http 500 w1) of
                (Inr res, w2) \<Rightarrow> decode res w2
              | (Inl e, w2) \<Rightarrow> (Inl (LlmUnreachable url e), w2)))"
  by (simp add: prompt_model_def Let_def split: prod.split sum.split)

section \<open>Properties\<close>

text \<open>An outside that logs what is asked of it: sends with their prompts, pauses with their length.\<close>

datatype http_event = Sent string | Slept nat | Decoded

definition logging :: "(string \<Rightarrow> nat \<Rightarrow> string + 'res) \<Rightarrow> ('res \<Rightarrow> string + string) \<Rightarrow> (http_event list, 'res) http" where
  "logging reply decode =
     \<lparr>build_client = (\<lambda>_. Inr ()),
      get_status = (\<lambda>_ _ log. (Inr 200, log)),
      send = (\<lambda>url timeout req log. (reply (req_prompt req) (length log), log @ [Sent (req_prompt req)])),
      body_text = (\<lambda>res log. (decode res, log @ [Decoded])),
      sleep_ms = (\<lambda>ms log. log @ [Slept ms])\<rparr>"

text \<open>The retry of a prompt: a request is sent at most twice, the second time only when the first
  was not answered and after a pause of 500 ms; a request that was answered is never repeated, even if
  its body cannot be decoded. The log of the outside shows it, whatever the server does.\<close>

theorem prompt_retry:
  "prompt_model (logging reply decode) client prompt [] =
     (case reply prompt 0 of
        Inr res \<Rightarrow> (map_err External (decode res), [Sent prompt, Decoded])
      | Inl _ \<Rightarrow>
          (case reply prompt 2 of
             Inr res \<Rightarrow> (map_err External (decode res), [Sent prompt, Slept 500, Sent prompt, Decoded])
           | Inl e \<Rightarrow> (Inl (LlmUnreachable (base_url client @ ''/api/generate'') e),
                       [Sent prompt, Slept 500, Sent prompt])))"
  by (simp add: prompt_model_eq logging_def Let_def numeral_2_eq_2 split: sum.split)

end
