(* ===== verification/Pipeline.thy ===== *)
theory Pipeline
  imports Semantic_Cache Rerank Sql_Engine Vector_Store Llm
begin

text \<open>
  \<open>src/pipelines/query/mod.rs\<close> and \<open>router.rs\<close>: the query pipelines. The state a request works on is
  the pair of the semantic cache and the outside. \<open>AppState\<close> is a record of the shared components
  and, with them, of the crates they call (deserialisers, the hash maps' iteration orders, the clock).
\<close>

section \<open>State and results\<close>

datatype semantic_query_result = Verified semantic_response | Degraded degraded_response

datatype query_output = Sql "string list" | Semantic semantic_query_result

datatype 'j routed_query_result =
    Routed_Sql (generated_sql: string) (sql_results: "'j list")
  | Routed_Semantic semantic_query_result
  | Semantic_Fallback semantic_query_result

record ('w, 'q, 'o, 'p, 'b, 'conn, 'tbl, 'res, 'enc, 'j) app_state =
  llm_http :: "('w, 'res) http"
  llm_client :: ollama_client
  sql_parser :: "('q, 'o) sql_parser"
  sql_engine :: "('w, 'p, 'b) datafusion"
  json_writer :: "'b arrow"
  environment :: env
  embedding_model :: bert
  database :: "('w, 'conn, 'tbl) lancedb"
  vector_db_uri :: string
  lancedb_conn :: "'conn option"
  reranker :: "'enc cross_encoder option"
  max_query_chars :: nat
  clock :: "'w \<Rightarrow> nat option"
  chunk_text :: json_text
  score_order :: "(string, f32) hash_order"
  chunk_order :: "(string, string) hash_order"
  question_from_str :: "parsed_question deserializer"
  response_from_str :: "semantic_response deserializer"
  route_from_str :: "router_decision deserializer"
  sql_from_str :: "sql_response deserializer"
  value_from_str :: "'j deserializer"
  result_from_slice :: "semantic_query_result deserializer"
  result_to_vec :: "semantic_query_result \<Rightarrow> string + string"

type_synonym 'w served = "semantic_cache \<times> 'w"

text \<open>\<open>AppState::new\<close> reads its limits from the environment, has neither a connection nor a
  re-ranker, and starts with an empty cache. \<open>0.95\<close> as \<open>f32\<close> is \<open>0x3F733333\<close>.\<close>

definition app_limits :: "('w, 'q, 'o, 'p, 'b, 'conn, 'tbl, 'res, 'enc, 'j) app_state
    \<Rightarrow> ('w, 'q, 'o, 'p, 'b, 'conn, 'tbl, 'res, 'enc, 'j) app_state \<times> semantic_cache" where
  "app_limits s =
     (let env = environment s in
      (s\<lparr>lancedb_conn := None, reranker := None,
         max_query_chars := env_usize env ''MAX_QUERY_CHARS'' 4096\<rparr>,
       cache_new (env_usize env ''SEMANTIC_CACHE_CAPACITY'' 1024)
         (env_f32 env ''SEMANTIC_CACHE_THRESHOLD'' (F32 0x3F733333))))"

definition with_cross_encoder where
  "with_cross_encoder s encoder = s\<lparr>reranker := encoder\<rparr>"

definition with_lancedb_connection where
  "with_lancedb_connection s conn = s\<lparr>lancedb_conn := conn\<rparr>"

text \<open>A call that concerns the outside only.\<close>

definition outside :: "('w, err, 'a) io \<Rightarrow> ('w served, err, 'a) io" where
  "outside m = (\<lambda>(c, w). case m w of (r, w') \<Rightarrow> (r, (c, w')))"

definition ask_model where
  "ask_model s prompt = prompt_model (llm_http s) (llm_client s) prompt"

section \<open>SQL\<close>

text \<open>\<open>run_sql_query\<close>: the model writes the query, the gate checks it, the engine runs it.\<close>

definition run_sql_query ::
  "('w, 'q, 'o, 'p, 'b, 'conn, 'tbl, 'res, 'enc, 'j) app_state \<Rightarrow> string \<Rightarrow> ('w, err, 'b list) io" where
  "run_sql_query s query w =
     (case ask_model s (build_sql_prompt query) w of
        (Inl e, w1) \<Rightarrow> (Inl (SqlLlmOffline e), w1)
      | (Inr raw_json, w1) \<Rightarrow>
          io_try (io_lift (parse_llm_json (sql_from_str s) raw_json)) (\<lambda>resp.
          execute_sql_query (sql_parser s) (sql_engine s) (environment s) (sql_query resp)) w1)"

definition run_sql_pipeline ::
  "('w, 'q, 'o, 'p, 'b, 'conn, 'tbl, 'res, 'enc, 'j) app_state \<Rightarrow> string \<Rightarrow> ('w, err, 'b list) io" where
  "run_sql_pipeline s query = run_sql_query s query"

section \<open>The semantic pipeline\<close>

definition build_degraded_response :: "chunk_list \<Rightarrow> err \<Rightarrow> semantic_query_result" where
  "build_degraded_response cs e =
     Degraded \<lparr>degraded = True, message = ''LLM is offline or timed out: '' @ display e,
       retrieved_chunks = map (\<lambda>(i, txt). \<lparr>chunk_id = i, content = txt\<rparr>) cs\<rparr>"

definition raw_question :: "string \<Rightarrow> parsed_question" where
  "raw_question query = \<lparr>intent = query, filters = []\<rparr>"

text \<open>The verified answer is stored under the query and the vector of its intent.\<close>

definition store_and_return where
  "store_and_return s query v payload =
     (\<lambda>(c, w). let verified = Verified payload in
        (Inr verified,
         ((case result_to_vec s verified of
             Inr bytes \<Rightarrow> cache_insert c (clock s w) query v bytes
           | Inl _ \<Rightarrow> c), w)))"

text \<open>The second look when the model found no answer: the deterministic search on the intent.\<close>

definition absence_proof where
  "absence_proof s query parsed payload w =
     io_try (execute_fallback_search (database s) (chunk_text s) (intent parsed) (vector_db_uri s))
       (\<lambda>fallback_chunks w1.
          (let fb_chunks = chunk_order s fallback_chunks in
           if fb_chunks = [] then (Inr payload, w1)
           else (case ask_model s (build_semantic_prompt query fb_chunks) w1 of
                   (Inr raw, w2) \<Rightarrow>
                     io_lift (verify_and_parse_llm_generation (response_from_str s) raw fb_chunks) w2
                 | (Inl _, w2) \<Rightarrow> (Inr payload, w2)))) w"

definition generate_answer where
  "generate_answer s query parsed v candidates =
     (\<lambda>(c, w). case ask_model s (build_semantic_prompt query candidates) w of
        (Inl e, w1) \<Rightarrow> (Inr (build_degraded_response candidates e), (c, w1))
      | (Inr raw, w1) \<Rightarrow>
          io_try (io_lift (verify_and_parse_llm_generation (response_from_str s) raw candidates))
            (\<lambda>payload.
               io_try (outside (if answer_found payload then io_ok payload
                                else absence_proof s query parsed payload))
                 (store_and_return s query v)) (c, w1))"

definition retrieve_chunks where
  "retrieve_chunks s parsed v =
     (case lancedb_conn s of
        Some conn \<Rightarrow>
          execute_semantic_search_vector_on_connection (database s) (chunk_text s) (score_order s) v
            conn (filters parsed)
      | None \<Rightarrow>
          execute_semantic_search_vector (database s) (chunk_text s) (score_order s) v
            (vector_db_uri s) (filters parsed))"

definition rerank_stage where
  "rerank_stage s query chunks =
     (case reranker s of None \<Rightarrow> Inr chunks | Some encoder \<Rightarrow> rerank encoder query chunks 3)"

definition search_and_answer where
  "search_and_answer s query parsed v =
     io_try (outside (retrieve_chunks s parsed v)) (\<lambda>chunks.
     io_try (io_lift (rerank_stage s query chunks)) (\<lambda>candidates.
     generate_answer s query parsed v candidates))"

definition embed_and_look where
  "embed_and_look s query parsed =
     io_try (io_lift (get_embeddings (environment s) (embedding_model s) [intent parsed])) (\<lambda>embeddings.
     case embeddings of
       [] \<Rightarrow> io_err NoEmbedding
     | v # _ \<Rightarrow>
         (\<lambda>(c, w). case get_similar c (clock s w) v of
            (Some bytes, c1) \<Rightarrow>
              (case result_from_slice s bytes of
                 Inr res \<Rightarrow> (Inr res, (c1, w))
               | Inl _ \<Rightarrow> search_and_answer s query parsed v (c1, w))
          | (None, c1) \<Rightarrow> search_and_answer s query parsed v (c1, w)))"

definition parse_and_answer where
  "parse_and_answer s query =
     (\<lambda>(c, w). case ask_model s (build_question_parser_prompt query) w of
        (Inr raw, w1) \<Rightarrow>
          embed_and_look s query
            (case parse_llm_json (question_from_str s) raw of
               Inr parsed \<Rightarrow> parsed | Inl _ \<Rightarrow> raw_question query) (c, w1)
      | (Inl _, w1) \<Rightarrow> embed_and_look s query (raw_question query) (c, w1))"

definition run_semantic_pipeline ::
  "('w, 'q, 'o, 'p, 'b, 'conn, 'tbl, 'res, 'enc, 'j) app_state \<Rightarrow> string
     \<Rightarrow> ('w served, err, semantic_query_result) io" where
  "run_semantic_pipeline s query =
     (\<lambda>(c, w). case get_exact c (clock s w) query of
        (Some bytes, c1) \<Rightarrow>
          (case result_from_slice s bytes of
             Inr res \<Rightarrow> (Inr res, (c1, w))
           | Inl _ \<Rightarrow> parse_and_answer s query (c1, w))
      | (None, c1) \<Rightarrow> parse_and_answer s query (c1, w))"

section \<open>Routing\<close>

text \<open>\<open>route.to_uppercase()\<close> equals \<open>SQL\<close>: the letters in either case, and the long s, whose
  upper case is S.\<close>

definition uppercase_is_sql :: "string \<Rightarrow> bool" where
  "uppercase_is_sql r \<longleftrightarrow>
     (let ql = (\<lambda>t. t \<in> set [''QL'', ''Ql'', ''qL'', ''ql'']) in
      (case strip_prefix [CHR 0xC5, CHR 0xBF] r of
         Some t \<Rightarrow> ql t
       | None \<Rightarrow> (case r of [] \<Rightarrow> False | a # t \<Rightarrow> (a = CHR ''S'' \<or> a = CHR ''s'') \<and> ql t)))"

definition run_query_pipeline ::
  "('w, 'q, 'o, 'p, 'b, 'conn, 'tbl, 'res, 'enc, 'j) app_state \<Rightarrow> string
     \<Rightarrow> ('w served, err, query_output) io" where
  "run_query_pipeline s query =
     io_try (outside (classify_intent (llm_http s) (llm_client s) (route_from_str s) query)) (\<lambda>decision.
     if uppercase_is_sql (route decision)
     then io_try (outside (run_sql_pipeline s query)) (\<lambda>batches.
          io_try (io_lift (record_batches_to_json_lines (json_writer s) batches)) (\<lambda>lines.
          io_ok (Sql lines)))
     else io_try (run_semantic_pipeline s query) (\<lambda>res. io_ok (Semantic res)))"

fun collect_results :: "('a \<Rightarrow> string + 'j) \<Rightarrow> 'a list \<Rightarrow> string + 'j list" where
  "collect_results f [] = Inr []"
| "collect_results f (x # xs) = try_res (f x) (\<lambda>y. try_res (collect_results f xs) (\<lambda>ys. Inr (y # ys)))"

definition execute_routed_sql ::
  "('w, 'q, 'o, 'p, 'b, 'conn, 'tbl, 'res, 'enc, 'j) app_state \<Rightarrow> string
     \<Rightarrow> ('w, err, 'j routed_query_result) io" where
  "execute_routed_sql s query =
     io_try (ask_model s (build_sql_prompt query)) (\<lambda>raw_sql.
     io_try (io_lift (parse_llm_json (sql_from_str s) raw_sql)) (\<lambda>resp.
     io_try (execute_sql_query (sql_parser s) (sql_engine s) (environment s) (sql_query resp)) (\<lambda>batches.
     io_try (io_lift (record_batches_to_json_lines (json_writer s) batches)) (\<lambda>lines.
     io_try (io_lift (map_err External (collect_results (value_from_str s) lines))) (\<lambda>results.
     io_ok (Routed_Sql (sql_query resp) results))))))"

definition run_routed_pipeline ::
  "('w, 'q, 'o, 'p, 'b, 'conn, 'tbl, 'res, 'enc, 'j) app_state \<Rightarrow> string
     \<Rightarrow> ('w served, err, 'j routed_query_result) io" where
  "run_routed_pipeline s query =
     (\<lambda>(c, w). case ask_model s (build_routing_prompt query) w of
        (Inl _, w1) \<Rightarrow>
          io_try (run_semantic_pipeline s query) (\<lambda>res. io_ok (Semantic_Fallback res)) (c, w1)
      | (Inr raw_json, w1) \<Rightarrow>
          (let decision = (case parse_llm_json (route_from_str s) raw_json of
                             Inr d \<Rightarrow> d | Inl _ \<Rightarrow> \<lparr>route = ''SEMANTIC''\<rparr>)
           in if route decision = ''SQL'' then outside (execute_routed_sql s query) (c, w1)
              else io_try (run_semantic_pipeline s query) (\<lambda>res. io_ok (Routed_Semantic res)) (c, w1)))"

section \<open>Answers and their grounds\<close>

text \<open>The text a quote must come from: the JSON of a row of the database with the cited identifier.\<close>

definition grounded where
  "grounded s p \<longleftrightarrow> (answer_found p \<longrightarrow>
     (\<exists>name city. str_contains (chunk_text s (source_chunk_id p) name city) (exact_quote p)))"

definition codec_ok where
  "codec_ok s \<longleftrightarrow> (\<forall>res bytes. result_to_vec s res = Inr bytes \<longrightarrow> result_from_slice s bytes = Inr res)"

definition order_sound where
  "order_sound order \<longleftrightarrow> (\<forall>m i c. (i, c) \<in> set (order m) \<longrightarrow> m i = Some c)"

definition good_bytes where
  "good_bytes s bytes \<longleftrightarrow>
     (\<forall>res. result_from_slice s bytes = Inr res \<longrightarrow> (\<exists>p. res = Verified p \<and> grounded s p))"

definition good_cache where
  "good_cache s c \<longleftrightarrow> cache.all_responses (good_bytes s) c"

definition row_chunks_only where
  "row_chunks_only s cs \<longleftrightarrow> (\<forall>(i, c) \<in> set cs. \<exists>name city. c = chunk_text s i name city)"

text \<open>What every stage guarantees: the cache stays good, a verified answer is grounded, and without
  a verified answer nothing is stored.\<close>

definition stage_post where
  "stage_post s c r c' \<longleftrightarrow> good_cache s c' \<and> (\<forall>p. r = Inr (Verified p) \<longrightarrow> grounded s p) \<and>
     ((\<forall>p. r \<noteq> Inr (Verified p)) \<longrightarrow> cache_responses c' = cache_responses c)"

lemma outside_eq: "outside m (c, w) = (r, (c', w')) \<longleftrightarrow> m w = (r, w') \<and> c' = c"
  by (auto simp: outside_def split: prod.splits)

lemma stage_post_same: "good_cache s c \<Longrightarrow> (\<And>p. r \<noteq> Inr (Verified p)) \<Longrightarrow> stage_post s c r c"
  by (simp add: stage_post_def)

lemma verify_grounded:
  assumes "verify_and_parse_llm_generation d raw cs = Inr p" "row_chunks_only s cs"
  shows "grounded s p"
  using assms map_of_SomeD [of cs "source_chunk_id p"]
  by (fastforce simp: verify_ok_iff grounded_def row_chunks_only_def)

lemma retrieve_row_chunks:
  "retrieve_chunks s parsed v w = (Inr cs, w') \<Longrightarrow> row_chunks_only s cs"
  by (auto simp: retrieve_chunks_def row_chunks_only_def execute_semantic_search_vector_def
      execute_semantic_search_vector_on_connection_def execute_hybrid_search_def result_simps
      split: option.splits dest!: hybrid_chunk_texts)

lemma rerank_row_chunks:
  assumes "rerank_stage s query cs = Inr cs'" "row_chunks_only s cs"
  shows "row_chunks_only s cs'"
proof -
  have "set cs' \<subseteq> set cs"
    using assms(1) by (auto simp: rerank_stage_def rerank_def split: option.splits
        dest: rerank_candidates_subset)
  with assms(2) show ?thesis unfolding row_chunks_only_def by blast
qed

lemma fallback_row_chunks:
  assumes "execute_fallback_search db (chunk_text s) t uri w = (Inr m, w')" "order_sound (chunk_order s)"
  shows "row_chunks_only s (chunk_order s m)"
  using fallback_chunk_texts [OF assms(1)] assms(2)
  by (fastforce simp: row_chunks_only_def order_sound_def chunks_ok_def)

lemma absence_proof_grounded:
  assumes "absence_proof s query parsed payload w = (Inr p, w')" "grounded s payload"
    "order_sound (chunk_order s)"
  shows "grounded s p"
  using assms
  by (auto simp: absence_proof_def result_simps Let_def io_lift_def split: if_splits prod.splits sum.splits
      dest!: fallback_row_chunks [OF _ assms(3)] intro: verify_grounded)

lemma store_post:
  assumes "good_cache s c" "codec_ok s" "grounded s payload"
    and run: "store_and_return s query v payload (c, w) = (r, (c', w'))"
  shows "stage_post s c r c'"
proof (cases "result_to_vec s (Verified payload)")
  case (Inl e)
  with run assms show ?thesis by (auto simp: store_and_return_def Let_def stage_post_def)
next
  case (Inr bytes)
  with assms have "good_bytes s bytes" by (auto simp: good_bytes_def codec_ok_def)
  with assms(1) have "good_cache s (cache_insert c (clock s w) query v bytes)"
    unfolding good_cache_def by (rule cache.store_keeps)
  with run Inr assms(3) show ?thesis by (auto simp: store_and_return_def Let_def stage_post_def)
qed

lemma generate_post:
  assumes "good_cache s c" "codec_ok s" "order_sound (chunk_order s)" "row_chunks_only s candidates"
    and run: "generate_answer s query parsed v candidates (c, w) = (r, (c', w'))"
  shows "stage_post s c r c'"
proof -
  obtain ra w1 where ask: "ask_model s (build_semantic_prompt query candidates) w = (ra, w1)" by fastforce
  show ?thesis
  proof (cases ra)
    case (Inl e)
    with run ask assms(1) show ?thesis
      by (auto simp: generate_answer_def build_degraded_response_def intro: stage_post_same)
  next
    case (Inr raw)
    show ?thesis
    proof (cases "verify_and_parse_llm_generation (response_from_str s) raw candidates")
      case (Inl e)
      with run ask Inr assms(1) show ?thesis
        by (auto simp: generate_answer_def io_lift_def io_try_def intro: stage_post_same)
    next
      case v: (Inr payload)
      define look where "look = (if answer_found payload then io_ok payload
                                 else absence_proof s query parsed payload)"
      obtain rl w2 where l: "look w1 = (rl, w2)" by fastforce
      have go: "io_try (outside look) (store_and_return s query v) (c, w1) = (r, (c', w'))"
        using run ask Inr v by (simp add: generate_answer_def io_lift_def io_try_def look_def)
      have payload: "grounded s payload" using v assms(4) by (rule verify_grounded)
      show ?thesis
      proof (cases rl)
        case (Inl e)
        with go l assms(1) show ?thesis
          by (auto simp: io_try_def outside_def intro: stage_post_same)
      next
        case (Inr p)
        then have "grounded s p"
          using l payload assms(3) unfolding look_def
          by (auto simp: io_ok_def split: if_splits intro: absence_proof_grounded)
        moreover have "store_and_return s query v p (c, w2) = (r, (c', w'))"
          using go l Inr by (simp add: io_try_def outside_def)
        ultimately show ?thesis using assms(1,2) by (blast intro: store_post)
      qed
    qed
  qed
qed

lemma search_post:
  assumes "good_cache s c" "codec_ok s" "order_sound (chunk_order s)"
    and run: "search_and_answer s query parsed v (c, w) = (r, (c', w'))"
  shows "stage_post s c r c'"
  using run unfolding search_and_answer_def
proof (cases rule: io_try_cases)
  case (err e)
  then show ?thesis using assms(1) by (auto simp: outside_eq intro: stage_post_same)
next
  case (ok chunks st)
  obtain w1 where st: "st = (c, w1)" "retrieve_chunks s parsed v w = (Inr chunks, w1)"
    using ok(1) by (cases st) (auto simp: outside_eq)
  note rows = retrieve_row_chunks [OF st(2)]
  show ?thesis
  proof (cases "rerank_stage s query chunks")
    case (Inl e)
    with ok(2) st(1) assms(1) show ?thesis by (auto simp: io_lift_def io_try_def intro: stage_post_same)
  next
    case (Inr candidates)
    with ok(2) st(1) have "generate_answer s query parsed v candidates (c, w1) = (r, (c', w'))"
      by (simp add: io_lift_def io_try_def)
    with rerank_row_chunks [OF Inr rows] assms show ?thesis by (blast intro: generate_post)
  qed
qed

lemma stage_post_look:
  assumes "cache_responses c1 = cache_responses c" "stage_post s c1 r c'"
  shows "stage_post s c r c'"
  using assms by (simp add: stage_post_def)

lemma hit_post:
  assumes "good_cache s c1" "bytes \<in> cache_responses c1" "result_from_slice s bytes = Inr res"
  shows "stage_post s c1 (Inr res) c1"
  using assms unfolding good_cache_def cache.all_responses_def good_bytes_def stage_post_def by blast

lemma embed_post:
  assumes "good_cache s c" "codec_ok s" "order_sound (chunk_order s)"
    and run: "embed_and_look s query parsed (c, w) = (r, (c', w'))"
  shows "stage_post s c r c'"
  using run unfolding embed_and_look_def
proof (cases rule: io_try_cases)
  case (err e)
  then show ?thesis using assms(1) by (auto simp: io_lift_def intro: stage_post_same)
next
  case (ok embs st)
  then have st: "st = (c, w)" by (auto simp: io_lift_def)
  show ?thesis
  proof (cases embs)
    case Nil
    with ok st assms(1) show ?thesis by (auto simp: io_err_def intro: stage_post_same)
  next
    case (Cons v vs)
    obtain found c1 where look: "get_similar c (clock s w) v = (found, c1)" by fastforce
    have same: "cache_responses c1 = cache_responses c" using look by (rule cache.similar_frame)
    have good: "good_cache s c1"
      using assms(1) cache.similar_keeps [OF look] by (simp add: good_cache_def)
    note go_on = search_post [OF good assms(2,3)]
    show ?thesis
    proof (cases "\<exists>bytes res. found = Some bytes \<and> result_from_slice s bytes = Inr res")
      case True
      then obtain bytes res where f: "found = Some bytes" "result_from_slice s bytes = Inr res" by blast
      then have "r = Inr res" "c' = c1" using ok(2) st Cons look by auto
      moreover have "bytes \<in> cache_responses c1" using look f same by (auto dest: cache.similar_hit)
      ultimately show ?thesis using hit_post [OF good _ f(2)] stage_post_look [OF same] by blast
    next
      case False
      then have "search_and_answer s query parsed v (c1, w) = (r, (c', w'))"
        using ok(2) st Cons look by (auto split: option.splits sum.splits)
      then show ?thesis using go_on stage_post_look [OF same] by blast
    qed
  qed
qed

lemma pipeline_post:
  assumes "good_cache s c" "codec_ok s" "order_sound (chunk_order s)"
    and run: "run_semantic_pipeline s query (c, w) = (r, (c', w'))"
  shows "stage_post s c r c'"
proof -
  obtain found c1 where look: "get_exact c (clock s w) query = (found, c1)" by fastforce
  have same: "cache_responses c1 = cache_responses c" using look by (rule cache.exact_frame)
  have good: "good_cache s c1"
    using assms(1) cache.exact_keeps [OF look] by (simp add: good_cache_def)
  show ?thesis
  proof (cases "\<exists>bytes res. found = Some bytes \<and> result_from_slice s bytes = Inr res")
    case True
    then obtain bytes res where f: "found = Some bytes" "result_from_slice s bytes = Inr res" by blast
    then have "r = Inr res" "c' = c1" using run look by (auto simp: run_semantic_pipeline_def)
    moreover have "bytes \<in> cache_responses c1" using look f same by (auto dest: cache.exact_hit)
    ultimately show ?thesis using hit_post [OF good _ f(2)] stage_post_look [OF same] by blast
  next
    case False
    then have "parse_and_answer s query (c1, w) = (r, (c', w'))"
      using run look by (auto simp: run_semantic_pipeline_def split: option.splits sum.splits)
    then have "stage_post s c1 r c'"
      using embed_post [OF good assms(2,3)]
      by (auto simp: parse_and_answer_def split: prod.splits sum.splits)
    then show ?thesis by (rule stage_post_look [OF same])
  qed
qed

lemma stored_answer_found:
  assumes "\<not> poisoned c" "fst (get_exact c t q) = None" "eq_ignore_ascii_case (trim q) (trim q2)"
  shows "\<exists>c''. get_exact (cache_insert c t1 q v bytes) t2 q2 = (Some bytes, c'')"
proof -
  have "query_matches q2 e = query_matches q e" for e
    using assms(3) eq_ignore_ascii_case_sym eq_ignore_ascii_case_trans
    unfolding query_matches_def by blast
  moreover have "find (query_matches q) (entries c) = None"
    using assms(1,2) by (simp add: fst_get_exact)
  ultimately have none: "\<forall>e \<in> set (make_room (capacity c) (entries c)). \<not> query_matches q2 e"
    using set_make_room by (fastforce simp: find_None_iff)
  have "find P (xs @ [x]) = Some x" if "\<forall>y \<in> set xs. \<not> P y" "P x" for P and xs :: "cache_entry list" and x
    using that by (induction xs) auto
  with none assms(1,3) have "fst (get_exact (cache_insert c t1 q v bytes) t2 q2) = Some bytes"
    by (simp add: fst_get_exact cache_insert_def query_matches_def)
  then show ?thesis by (metis prod.collapse)
qed

section \<open>A small installation\<close>

text \<open>For the witnesses: the database in memory is the outside; \<open>reply\<close> is the model; an answer about
  Acme is the only one the codec knows.\<close>

definition demo_http :: "(string \<Rightarrow> string + string) \<Rightarrow> ('w, string) http" where
  "demo_http reply =
     \<lparr>build_client = (\<lambda>_. Inr ()), get_status = (\<lambda>_ _ w. (Inr 200, w)),
      send = (\<lambda>_ _ req w. (reply (req_prompt req), w)), body_text = (\<lambda>body w. (Inr body, w)),
      sleep_ms = (\<lambda>_ w. w)\<rparr>"

definition demo_answer :: semantic_response where
  "demo_answer = \<lparr>answer_found = True, answer = ''Acme'', exact_quote = ''Acme Berlin'',
     source_chunk_id = ''1000''\<rparr>"

definition demo_order :: "string list \<Rightarrow> (string, string) hash_order" where
  "demo_order ks m = List.map_filter (\<lambda>k. map_option (Pair k) (m k)) ks"

definition demo_app ::
  "(string \<Rightarrow> string + string) \<Rightarrow>
   (demo_row list option, string, string, nat list, string list, unit, unit, string, unit, string) app_state" where
  "demo_app reply =
     \<lparr>llm_http = demo_http reply,
      llm_client = \<lparr>client_timeout = 10, base_url = ''http://h'', model_name = ''m''\<rparr>,
      sql_parser = toy_parser,
      sql_engine = \<lparr>register_csv = (\<lambda>_ _. io_ok ()), ctx_sql = (\<lambda>_. io_ok [0, 1]),
        df_limit = (\<lambda>_ fetch plan. Inr (case fetch of None \<Rightarrow> plan | Some n \<Rightarrow> take n plan)),
        df_collect = (\<lambda>plan. io_ok [map show_nat plan])\<rparr>,
      json_writer = toy_arrow, environment = (\<lambda>_. None), embedding_model = toy_bert,
      database = demo_db, vector_db_uri = ''db'', lancedb_conn = None, reranker = None,
      max_query_chars = 40, clock = (\<lambda>_. Some 7), chunk_text = demo_json,
      score_order = listing [''1000'', ''2000''], chunk_order = demo_order [''1000'', ''2000''],
      question_from_str = (\<lambda>_. Inl ''bad''),
      response_from_str = (\<lambda>s. if s = ''A'' then Inr demo_answer else Inl ''bad''),
      route_from_str = (\<lambda>s. if s = ''S'' then Inr \<lparr>route = ''SQL''\<rparr> else Inl ''bad''),
      sql_from_str = (\<lambda>s. if s = ''D'' then Inr \<lparr>sql_query = ''DROP''\<rparr> else Inl ''bad''),
      value_from_str = Inr,
      result_from_slice = (\<lambda>s. if s = ''{V}'' then Inr (Verified demo_answer) else Inl ''bad''),
      result_to_vec = (\<lambda>r. if r = Verified demo_answer then Inr ''{V}'' else Inl ''unsupported'')\<rparr>"

lemma demo_codec: "codec_ok (demo_app reply)"
  by (simp add: codec_ok_def demo_app_def)

lemma demo_order_sound: "order_sound (chunk_order (demo_app reply))"
  by (auto simp: order_sound_def demo_app_def demo_order_def List.map_filter_def split: option.splits)

lemma new_cache_good: "good_cache s (cache_new cap thr)"
  by (simp add: good_cache_def cache.all_responses_def cache_responses_def cache_new_def)

lemma demo_ask:
  "ask_model (demo_app reply) prompt w =
     (map_err (LlmUnreachable ''http://h/api/generate'') (reply prompt), w)"
  by (simp add: ask_model_def prompt_model_eq demo_app_def demo_http_def Let_def
      split: sum.split)

definition demo_chunks :: chunk_list where
  "demo_chunks = [(''1000'', ''{1000 Acme Berlin}''), (''2000'', ''{2000 Beta Munich}'')]"

lemma demo_plain_search:
  "execute_hybrid_search_on_connection demo_db demo_json (listing [''1000'', ''2000''])
     [F32 0x3F19999A, F32 0x3F4CCCCD] () [] demo_table = (Inr demo_chunks, demo_table)"
  by code_simp

lemma demo_retrieve:
  "retrieve_chunks (demo_app reply) (raw_question q) [F32 0x3F19999A, F32 0x3F4CCCCD] demo_table =
     (Inr demo_chunks, demo_table)"
  using demo_plain_search
  by (simp add: retrieve_chunks_def demo_app_def raw_question_def execute_semantic_search_vector_def
      execute_hybrid_search_def demo_db_def io_try_def io_ok_def)

lemma demo_semantic_run:
  "run_semantic_pipeline (demo_app reply) q (cache_new 4 f32_one, demo_table) =
     generate_answer (demo_app reply) q (raw_question q) [F32 0x3F19999A, F32 0x3F4CCCCD] demo_chunks
       (cache_new 4 f32_one, demo_table)"
proof -
  let ?s = "demo_app reply" and ?c = "cache_new 4 f32_one" and ?v = "[F32 0x3F19999A, F32 0x3F4CCCCD]"
  have "parse_llm_json (question_from_str ?s) raw = Inl (BadJson ''bad'' (clean_json raw))" for raw
    by (simp add: demo_app_def parse_llm_json_def)
  moreover have "get_exact ?c t q = (None, ?c)" for t
    by (simp add: cache_new_def get_exact_def)
  ultimately have "run_semantic_pipeline ?s q (?c, demo_table) = embed_and_look ?s q (raw_question q) (?c, demo_table)"
    by (simp add: run_semantic_pipeline_def parse_and_answer_def demo_ask split: sum.split)
  moreover have "get_embeddings (environment ?s) (embedding_model ?s) [q] = Inr [?v]"
    using toy_embedding by (simp add: demo_app_def)
  moreover have "get_similar ?c t ?v = (None, ?c)" for t
    by (simp add: cache_new_def get_similar_def)
  moreover have "rerank_stage ?s q demo_chunks = Inr demo_chunks"
    by (simp add: rerank_stage_def demo_app_def)
  ultimately show ?thesis
    by (simp add: embed_and_look_def search_and_answer_def raw_question_def [of q] io_lift_def io_try_def
        outside_def demo_retrieve [unfolded raw_question_def])
qed

lemma demo_run_up:
  "\<exists>c'. run_semantic_pipeline (demo_app (\<lambda>_. Inr ''A'')) q (cache_new 4 f32_one, demo_table) =
     (Inr (Verified demo_answer), (c', demo_table))"
proof -
  have "clean_json ''A'' = ''A''" by code_simp
  moreover have "str_contains ''{1000 Acme Berlin}'' ''Acme Berlin''" by code_simp
  ultimately have "verify_and_parse_llm_generation (response_from_str (demo_app (\<lambda>_. Inr ''A''))) ''A'' demo_chunks =
      Inr demo_answer"
    by (simp add: verify_and_parse_llm_generation_def parse_llm_json_def demo_app_def demo_answer_def
        demo_chunks_def)
  then show ?thesis
    by (simp add: demo_semantic_run generate_answer_def demo_ask io_lift_def io_try_def outside_def io_ok_def
        store_and_return_def Let_def demo_answer_def)
qed

lemma demo_run_down:
  "run_semantic_pipeline (demo_app (\<lambda>_. Inl ''down'')) q (cache_new 4 f32_one, demo_table) =
     (Inr (build_degraded_response demo_chunks (LlmUnreachable ''http://h/api/generate'' ''down'')),
      (cache_new 4 f32_one, demo_table))"
  by (simp add: demo_semantic_run generate_answer_def demo_ask)

section \<open>Properties\<close>







text \<open>The second tier of the cache looks at the intent only: when it has an answer for the vector
  of an intent, that answer is returned for every question with this intent, whatever its filters -
  exclusions and identifiers - are, and without searching.\<close>

theorem similar_hit_ignores_filters:
  assumes "get_embeddings (environment s) (embedding_model s) [what] = Inr (v # vs)"
    and "get_similar c (clock s w) v = (Some bytes, c1)" "result_from_slice s bytes = Inr res"
  shows "embed_and_look s q1 \<lparr>intent = what, filters = fs1\<rparr> (c, w) = (Inr res, (c1, w)) \<and>
    embed_and_look s q2 \<lparr>intent = what, filters = fs2\<rparr> (c, w) = (Inr res, (c1, w))"
  using assms by (simp add: embed_and_look_def io_lift_def io_try_def)

definition warm_cache :: semantic_cache where
  "warm_cache = cache_insert (cache_new 4 f32_zero) (Some 1) ''q'' [f32_one, f32_zero] ''{V}''"

theorem similar_hit_ignores_filters_witness:
  "\<exists>c'. embed_and_look (demo_app (\<lambda>_. Inl ''down'')) ''a'' \<lparr>intent = ''x'', filters = []\<rparr> (warm_cache, None) =
      (Inr (Verified demo_answer), (c', None)) \<and>
    embed_and_look (demo_app (\<lambda>_. Inl ''down'')) ''b'' \<lparr>intent = ''x'', filters = [''NOT 1000'']\<rparr> (warm_cache, None) =
      (Inr (Verified demo_answer), (c', None))"
proof -
  let ?s = "demo_app (\<lambda>_. Inl ''down'')"
  have emb: "get_embeddings (environment ?s) (embedding_model ?s) [''x''] = Inr ([F32 0x3F19999A, F32 0x3F4CCCCD] # [])"
  proof -
    have "environment ?s = (\<lambda>_. None)" "embedding_model ?s = toy_bert" by (simp_all add: demo_app_def)
    then show ?thesis using toy_embedding by simp
  qed
  have "fst (get_similar warm_cache (clock ?s None) [F32 0x3F19999A, F32 0x3F4CCCCD]) = Some ''{V}''"
    by code_simp
  then obtain c' where "get_similar warm_cache (clock ?s None) [F32 0x3F19999A, F32 0x3F4CCCCD] = (Some ''{V}'', c')"
    by (metis prod.collapse)
  moreover have "result_from_slice ?s ''{V}'' = Inr (Verified demo_answer)" by (simp add: demo_app_def)
  ultimately show ?thesis using similar_hit_ignores_filters [OF emb] by blast
qed

text \<open>C7: What the model writes as SQL passes the same gate as what a user writes: unless its text
  parses to exactly one query, both SQL routes end in an error and the outside is as the model call
  left it; the engine is never consulted.\<close>

theorem model_sql_gated:
  assumes "ask_model s (build_sql_prompt q) w = (Inr raw, w1)"
    and "parse_llm_json (sql_from_str s) raw = Inr resp"
    and "\<nexists>body. sql_parser s (sql_query resp) = Inr [Query body]"
  shows "(\<exists>e. run_sql_query s q w = (Inl e, w1)) \<and> (\<exists>e. execute_routed_sql s q w = (Inl e, w1))"
proof -
  obtain e where "validate_sql_is_safe (sql_parser s) (sql_query resp) = Inl e"
    using assms(3) validate_ok_iff by (metis (full_types) old.sum.exhaust old.unit.exhaust)
  then have "execute_sql_query (sql_parser s) (sql_engine s) (environment s) (sql_query resp) w1 = (Inl e, w1)"
    by (rule execute_rejected)
  with assms(1,2) show ?thesis
    by (simp add: run_sql_query_def execute_routed_sql_def io_try_def io_lift_def)
qed

theorem model_sql_gated_witness:
  "\<exists>e. run_sql_query (demo_app (\<lambda>_. Inr ''D'')) ''q'' demo_table = (Inl e, demo_table)"
proof -
  let ?s = "demo_app (\<lambda>_. Inr ''D'')"
  have ask: "ask_model ?s (build_sql_prompt ''q'') demo_table = (Inr ''D'', demo_table)"
    by (simp add: demo_ask)
  have "clean_json ''D'' = ''D''" by code_simp
  then have json: "parse_llm_json (sql_from_str ?s) ''D'' = Inr \<lparr>sql_query = ''DROP''\<rparr>"
    by (simp add: parse_llm_json_def demo_app_def)
  have gate: "\<nexists>body. sql_parser ?s (sql_query \<lparr>sql_query = ''DROP''\<rparr>) = Inr [Query body]"
    by (simp add: demo_app_def toy_parser_def)
  from model_sql_gated [OF ask json gate] show ?thesis by blast
qed

text \<open>C12: Routing never loses a question: when the router's model cannot be reached, or writes
  something that is no decision, or decides anything but \<open>SQL\<close>, the routed pipeline gives the
  semantic pipeline's outcome, tagged with how it came about.\<close>

theorem router_falls_back:
  assumes "ask_model s (build_routing_prompt q) w = (reply, w1)"
    and "\<And>raw d. reply = Inr raw \<Longrightarrow> parse_llm_json (route_from_str s) raw = Inr d \<Longrightarrow> route d \<noteq> ''SQL''"
  shows "run_routed_pipeline s q (c, w) =
    (case run_semantic_pipeline s q (c, w1) of
       (Inl e, st) \<Rightarrow> (Inl e, st)
     | (Inr res, st) \<Rightarrow> (Inr (if is_ok reply then Routed_Semantic res else Semantic_Fallback res), st))"
proof (cases reply)
  case (Inl e)
  with assms(1) show ?thesis
    by (simp add: run_routed_pipeline_def io_try_def io_ok_def split: prod.split sum.split)
next
  case (Inr raw)
  with assms show ?thesis
    by (cases "parse_llm_json (route_from_str s) raw")
      (auto simp: run_routed_pipeline_def io_try_def io_ok_def Let_def split: prod.split sum.split)
qed

theorem router_falls_back_witness:
  "\<exists>res c'. run_routed_pipeline (demo_app (\<lambda>_. Inl ''down'')) ''who'' (cache_new 4 f32_one, demo_table) =
     (Inr (Semantic_Fallback res), (c', demo_table))"
proof -
  let ?s = "demo_app (\<lambda>_. Inl ''down'')"
  obtain res c' where run: "run_semantic_pipeline ?s ''who'' (cache_new 4 f32_one, demo_table) =
      (Inr res, (c', demo_table))"
    using demo_run_down by blast
  have "\<exists>e. ask_model ?s (build_routing_prompt ''who'') demo_table = (Inl e, demo_table)"
    by (simp add: demo_ask)
  then obtain e where "ask_model ?s (build_routing_prompt ''who'') demo_table = (Inl e, demo_table)" by blast
  from router_falls_back [OF this, of "cache_new 4 f32_one"] run show ?thesis by simp
qed


definition absent_app where
  "absent_app = (demo_app (\<lambda>_. Inr ''N''))\<lparr>response_from_str :=
     (\<lambda>_. Inr \<lparr>answer_found = False, answer = ''none'', exact_quote = [], source_chunk_id = []\<rparr>)\<rparr>"


end
