(* ===== verification/Http.thy ===== *)
theory Http
  imports Pipeline
begin

text \<open>
  \<open>src/gateway/http\<close>: the payloads (\<open>dto.rs\<close>), the handlers (\<open>routes.rs\<close>), the conversion of
  middleware errors (\<open>middleware.rs\<close>) and the route table (\<open>mod.rs\<close>). A handler's error is the
  pair of a status code and an error body. What axum and tower do - reading the JSON body,
  admitting a request, answering what no route matches - is a parameter.
\<close>

section \<open>Payloads\<close>

record error_response =
  error_text :: string

record query_request =
  query_text :: string

record health_response =
  status :: string
  llm_connected :: bool
  vector_db_connected :: bool
  total_records :: nat
  vector_indexed :: bool
  cache_entries :: nat

type_synonym http_error = "nat \<times> error_response"

definition new_error :: "nat \<Rightarrow> string \<Rightarrow> http_error" where
  "new_error code text = (code, \<lparr>error_text = text\<rparr>)"

section \<open>Health\<close>

text \<open>The two probes of the store: an error of either is a report, not a failure.\<close>

definition health_handler ::
  "('w, 'q, 'o, 'p, 'b, 'conn, 'tbl, 'res, 'enc, 'j) app_state \<Rightarrow> 'w served
     \<Rightarrow> (nat \<times> health_response) \<times> 'w served" where
  "health_handler s = (\<lambda>(c, w).
     let (llm_online, w1) = is_healthy (llm_http s) (llm_client s) w;
         (lancedb_stats, w2) = check_lancedb_health (database s) (vector_db_uri s) w1;
         (connected, total) = (case lancedb_stats of Inr n \<Rightarrow> (True, n) | Inl _ \<Rightarrow> (False, 0));
         (indexed, w3) = is_vector_indexed (database s) (vector_db_uri s) w2;
         (st, code) =
           (if llm_online \<and> connected then (''healthy'', 200)
            else if connected then (''degraded'', 200)
            else (''unhealthy'', 503))
     in ((code,
          \<lparr>status = st, llm_connected = llm_online, vector_db_connected = connected,
           total_records = total,
           vector_indexed = (case indexed of Inr b \<Rightarrow> b | Inl _ \<Rightarrow> False),
           cache_entries = cache_len c\<rparr>), (c, w3)))"

section \<open>Queries\<close>

definition validate_query_str :: "string \<Rightarrow> string \<Rightarrow> nat \<Rightarrow> http_error + string" where
  "validate_query_str query what max_chars =
     (let trimmed = trim query in
      if trimmed = [] then Inl (new_error 400 (what @ '' cannot be empty''))
      else if max_chars < length trimmed
      then Inl (new_error 400
             (what @ '' exceeds maximum length of '' @ show_nat max_chars @ '' characters''))
      else Inr trimmed)"

text \<open>The loop over the lines, with its flag \<open>first\<close> and the buffer it grows.\<close>

fun frame_lines :: "bool \<Rightarrow> string list \<Rightarrow> string \<Rightarrow> string" where
  "frame_lines first [] wire_buffer = wire_buffer"
| "frame_lines first (line # rest) wire_buffer =
     (let trimmed = (if suffix [cr] line then take (length line - 1) line else line) in
      if trimmed = [] then frame_lines first rest wire_buffer
      else frame_lines False rest ((if first then wire_buffer else wire_buffer @ '','') @ trimmed))"

definition wire_frame :: "string \<Rightarrow> string" where
  "wire_frame raw_lines = frame_lines True (split_on nl raw_lines) ''['' @ '']''"

definition sql_query_handler ::
  "('w, 'q, 'o, 'p, 'b, 'conn, 'tbl, 'res, 'enc, 'j) app_state \<Rightarrow> string
     \<Rightarrow> ('w served, http_error, string) io" where
  "sql_query_handler s payload =
     io_try (io_lift (validate_query_str payload ''SQL query'' (max_query_chars s))) (\<lambda>query.
     io_try (io_map_err (\<lambda>e. new_error 400 (''SQL Execution Error: '' @ display e))
       (outside (execute_sql_query (sql_parser s) (sql_engine s) (environment s) query))) (\<lambda>batches.
     case write_record_batches_as_json_lines (json_writer s) vec_write batches [] of
       (Inl e, _) \<Rightarrow> io_err (new_error 500 (''Serialization Error: '' @ display e))
     | (Inr _, raw_lines) \<Rightarrow> io_ok (wire_frame raw_lines)))"

definition semantic_query_handler ::
  "('w, 'q, 'o, 'p, 'b, 'conn, 'tbl, 'res, 'enc, 'j) app_state \<Rightarrow> string
     \<Rightarrow> ('w served, http_error, semantic_query_result) io" where
  "semantic_query_handler s payload =
     io_try (io_lift (validate_query_str payload ''Query'' (max_query_chars s))) (\<lambda>query.
     io_map_err (\<lambda>e. new_error 500 (''Semantic pipeline error: '' @ display e))
       (run_semantic_pipeline s query))"

definition router_query_handler ::
  "('w, 'q, 'o, 'p, 'b, 'conn, 'tbl, 'res, 'enc, 'j) app_state \<Rightarrow> string
     \<Rightarrow> ('w served, http_error, 'j routed_query_result) io" where
  "router_query_handler s payload =
     io_try (io_lift (validate_query_str payload ''Query'' (max_query_chars s))) (\<lambda>query.
     io_map_err (\<lambda>e. new_error 500 (''Routed query error: '' @ display e))
       (run_routed_pipeline s query))"

section \<open>Middleware and routes\<close>

datatype box_error = Overloaded | Other_Error string

definition handle_load_shed_error :: "box_error \<Rightarrow> nat \<times> string" where
  "handle_load_shed_error e =
     (case e of
        Overloaded \<Rightarrow> (503, ''Server overloaded, request shed to protect memory stability'')
      | Other_Error m \<Rightarrow> (500, ''Unhandled middleware error: '' @ m))"

datatype http_verb = Get | Head | Post | Other_Verb string

record http_request =
  verb :: http_verb
  req_path :: string
  req_body :: string

datatype 'j http_body =
    Health_Body health_response
  | Wire_Body string
  | Semantic_Body semantic_query_result
  | Routed_Body "'j routed_query_result"
  | Error_Body error_response
  | Shed_Body string nat
  | Library_Body string

type_synonym 'j http_reply = "nat \<times> 'j http_body"

text \<open>\<open>admit\<close>: tower's load shedding over the concurrency limit it is given; \<open>json_body\<close>: axum's
  JSON extractor for a query request; \<open>no_route\<close>: axum's answer when no route or method matches.\<close>

record 'w web =
  admit :: "nat \<Rightarrow> http_request \<Rightarrow> ('w, box_error, unit) io"
  json_body :: "string \<Rightarrow> (nat \<times> string) + query_request"
  no_route :: "http_request \<Rightarrow> nat \<times> string"

definition into_reply :: "('a \<Rightarrow> 'j http_body) \<Rightarrow> http_error + 'a \<Rightarrow> 'j http_reply" where
  "into_reply wrap r =
     (case r of Inr x \<Rightarrow> (200, wrap x) | Inl (code, e) \<Rightarrow> (code, Error_Body e))"

definition with_json ::
  "'w web \<Rightarrow> ('a \<Rightarrow> 'j http_body) \<Rightarrow> (string \<Rightarrow> ('w served, http_error, 'a) io) \<Rightarrow> http_request
     \<Rightarrow> 'w served \<Rightarrow> 'j http_reply \<times> 'w served" where
  "with_json web wrap handler req st =
     (case json_body web (req_body req) of
        Inl (code, text) \<Rightarrow> ((code, Library_Body text), st)
      | Inr payload \<Rightarrow> (case handler (query_text payload) st of (r, st') \<Rightarrow> (into_reply wrap r, st')))"

text \<open>A \<open>get\<close> route answers HEAD as well; the server then leaves out the body.\<close>

definition route_request where
  "route_request s web req st =
     (if req_path req = ''/health'' \<and> verb req \<in> {Get, Head} then
        (case health_handler s st of ((code, report), st') \<Rightarrow> ((code, Health_Body report), st'))
      else if req_path req = ''/query/sql'' \<and> verb req = Post then
        with_json web Wire_Body (sql_query_handler s) req st
      else if req_path req = ''/query/semantic'' \<and> verb req = Post then
        with_json web Semantic_Body (semantic_query_handler s) req st
      else if req_path req = ''/query'' \<and> verb req = Post then
        with_json web Routed_Body (router_query_handler s) req st
      else (case no_route web req of (code, text) \<Rightarrow> ((code, Library_Body text), st)))"

definition create_router ::
  "('w, 'q, 'o, 'p, 'b, 'conn, 'tbl, 'res, 'enc, 'j) app_state \<Rightarrow> 'w web \<Rightarrow> http_request
     \<Rightarrow> 'w served \<Rightarrow> 'j http_reply \<times> 'w served" where
  "create_router s web req = (\<lambda>(c, w).
     case admit web 128 req w of
       (Inl e, w1) \<Rightarrow> (case handle_load_shed_error e of (code, text) \<Rightarrow> ((code, Shed_Body text code), (c, w1)))
     | (Inr _, w1) \<Rightarrow> route_request s web req (c, w1))"

section \<open>Facts\<close>

lemma validate_query_ok:
  "validate_query_str query what max_chars = Inr t \<longleftrightarrow>
     t = trim query \<and> t \<noteq> [] \<and> length t \<le> max_chars"
  by (auto simp: validate_query_str_def Let_def)

lemma validate_query_bad:
  "trim query = [] \<or> max_chars < length (trim query) \<Longrightarrow>
    \<exists>m. validate_query_str query what max_chars = Inl (new_error 400 m)"
  by (auto simp: validate_query_str_def Let_def)

text \<open>A row the framing passes on unchanged.\<close>

definition row_text :: "string \<Rightarrow> bool" where
  "row_text r \<longleftrightarrow> r \<noteq> [] \<and> nl \<notin> set r \<and> \<not> suffix [cr] r"

lemma object_row_text: "object_text r \<Longrightarrow> row_text r"
  using object_text_line by (simp add: row_text_def)

lemma frame_later:
  "\<forall>r \<in> set rows. row_text r \<Longrightarrow>
    frame_lines False (rows @ [[]]) buf = buf @ concat (map (\<lambda>r. '','' @ r) rows)"
  by (induction rows arbitrary: buf) (auto simp: row_text_def)

lemma join_Cons: "str_join sep (r # rows) = r @ concat (map (\<lambda>x. sep @ x) rows)"
  by (induction rows arbitrary: r) auto

lemma wire_frame_rows:
  assumes "\<forall>r \<in> set rows. row_text r"
  shows "wire_frame (json_lines rows) = ''['' @ str_join '','' rows @ '']''"
proof -
  have "split_on nl (json_lines rows) = rows @ [[]]"
    using assms split_on_rows [of rows] by (simp add: json_lines_def row_text_def)
  then show ?thesis
    using assms frame_later [of "tl rows"]
    by (cases rows) (auto simp: wire_frame_def join_Cons row_text_def)
qed

lemma wire_frame_empty: "wire_frame [] = ''[]''"
  by (simp add: wire_frame_def)

section \<open>Reading a JSON array back\<close>

text \<open>The specification of the wire format: the elements of an array are the texts between the commas
  at bracket depth zero outside string literals. The state of the reader is the depth, whether it is
  in a literal, and whether the last character was a backslash there.\<close>

type_synonym scan = "nat \<times> bool \<times> bool"

definition at_top :: scan where
  "at_top = (0, False, False)"

definition scan_char :: "scan \<Rightarrow> char \<Rightarrow> scan" where
  "scan_char st ch =
     (case st of (depth, literal, escaped) \<Rightarrow>
        if escaped then (depth, literal, False)
        else if literal then (depth, ch \<noteq> CHR 0x22, ch = CHR 0x5C)
        else if ch = CHR 0x22 then (depth, True, False)
        else if ch = CHR ''{'' \<or> ch = CHR ''['' then (depth + 1, False, False)
        else if ch = CHR ''}'' \<or> ch = CHR '']'' then (depth - 1, False, False)
        else st)"

fun read_elements :: "scan \<Rightarrow> string \<Rightarrow> string \<Rightarrow> string list" where
  "read_elements st elem [] = [elem]"
| "read_elements st elem (ch # rest) =
     (if ch = CHR '','' \<and> st = at_top then elem # read_elements st [] rest
      else read_elements (scan_char st ch) (elem @ [ch]) rest)"

definition read_array :: "string \<Rightarrow> string list" where
  "read_array wire = (let inner = butlast (tl wire) in
     if inner = [] then [] else read_elements at_top [] inner)"

text \<open>A text that is one element: balanced, with no comma at the top.\<close>

definition one_element :: "string \<Rightarrow> bool" where
  "one_element r \<longleftrightarrow> read_elements at_top [] r = [r] \<and> foldl scan_char at_top r = at_top"

lemma read_elements_nonempty [simp]: "read_elements st elem r \<noteq> []"
  by (induction st elem r rule: read_elements.induct) auto

lemma read_elements_append:
  assumes "read_elements st elem r = [elem @ r]" "foldl scan_char st r = at_top"
  shows "read_elements st elem (r @ CHR '','' # rest) = (elem @ r) # read_elements at_top [] rest"
  using assms
proof (induction r arbitrary: st elem)
  case Nil
  then show ?case by simp
next
  case (Cons ch r)
  have "\<not> (ch = CHR '','' \<and> st = at_top)" using Cons.prems(1) by auto
  with Cons.prems Cons.IH [of "scan_char st ch" "elem @ [ch]"] show ?case by auto
qed

lemma read_elements_join:
  assumes "\<forall>r \<in> set rows. one_element r" "rows \<noteq> []"
  shows "read_elements at_top [] (str_join '','' rows) = rows"
  using assms
proof (induction "'',''" rows rule: str_join.induct)
  case (3 r r' rows)
  then show ?case
    using read_elements_append [of at_top "[]" r] by (auto simp: one_element_def)
qed (auto simp: one_element_def)

lemma read_array_join:
  assumes "\<forall>r \<in> set rows. one_element r \<and> r \<noteq> []"
  shows "read_array (''['' @ str_join '','' rows @ '']'') = rows"
  using assms read_elements_join [of rows]
  by (cases rows) (auto simp: read_array_def Let_def join_Cons butlast_append)

section \<open>Properties\<close>

text \<open>C18: The SQL endpoint answers with a well-framed JSON array: for an accepted query whose batches
  encode to row texts, the body read back by the rules of JSON arrays is exactly the list of the
  rows, in order, across batch boundaries - none lost, none merged, none added - and an engine error
  is a 400 with its text; cache and outside are as the engine left them.\<close>

theorem sql_wire_array:
  assumes "validate_query_str q ''SQL query'' (max_query_chars s) = Inr t"
    and "execute_sql_query (sql_parser s) (sql_engine s) (environment s) t w = (r, w')"
    and "\<And>bs b. r = Inr bs \<Longrightarrow> b \<in> set bs \<Longrightarrow> encode_rows (json_writer s) b = Inr (rows b)"
    and "\<And>bs b x. r = Inr bs \<Longrightarrow> b \<in> set bs \<Longrightarrow> x \<in> set (rows b) \<Longrightarrow> row_text x \<and> one_element x"
  shows "case r of
      Inl e \<Rightarrow> sql_query_handler s q (c, w) =
        (Inl (400, \<lparr>error_text = ''SQL Execution Error: '' @ display e\<rparr>), (c, w'))
    | Inr bs \<Rightarrow> (\<exists>body. sql_query_handler s q (c, w) = (Inr body, (c, w')) \<and>
        read_array body = concat (map rows bs))"
proof (cases r)
  case (Inl e)
  with assms(1,2) show ?thesis
    by (simp add: sql_query_handler_def io_lift_def io_map_err_def outside_def new_error_def)
next
  case (Inr bs)
  let ?all = "concat (map rows bs)"
  have "write_record_batches_as_json_lines (json_writer s) vec_write bs [] = (Inr (), json_lines ?all)"
    using write_batches_vec [of bs "json_writer s" rows "[]"] assms(3) Inr by simp
  then have "sql_query_handler s q (c, w) = (Inr (wire_frame (json_lines ?all)), (c, w'))"
    using assms(1,2) Inr
    by (simp add: sql_query_handler_def io_lift_def io_map_err_def outside_def io_ok_def)
  moreover have good: "\<forall>x \<in> set ?all. row_text x \<and> one_element x" using assms(4) Inr by auto
  moreover have "read_array (wire_frame (json_lines ?all)) = ?all"
    using good wire_frame_rows [of ?all] read_array_join [of ?all] by (simp add: row_text_def)
  ultimately show ?thesis using Inr by simp
qed

lemma demo_sql_trim: "trim '' SELECT *'' = ''SELECT *''"
  by code_simp

lemma demo_sql_run:
  "execute_sql_query (sql_parser (demo_app reply)) (sql_engine (demo_app reply)) (environment (demo_app reply))
     ''SELECT *'' demo_table = (Inr [[''0'', ''1'']], demo_table)"
proof -
  have "show_nat 0 = ''0'' \<and> show_nat 1 = ''1''" by code_simp
  then show ?thesis
    by (simp add: execute_sql_query_def validate_sql_is_safe_def demo_app_def toy_parser_def io_simps
        max_sql_rows_def env_usize_def)
qed

lemma demo_encode: "encode_rows (json_writer (demo_app reply)) b = Inr b"
  by (simp add: demo_app_def toy_arrow_def)

theorem sql_wire_array_witness:
  "\<exists>body. sql_query_handler (demo_app Inl) '' SELECT *'' (cache_new 4 f32_one, demo_table) =
      (Inr body, (cache_new 4 f32_one, demo_table)) \<and>
     read_array body = [''0'', ''1'']"
proof -
  have valid: "validate_query_str '' SELECT *'' ''SQL query'' (max_query_chars (demo_app Inl)) =
      Inr ''SELECT *''"
    by (simp add: validate_query_ok demo_sql_trim demo_app_def)
  have "row_text ''0'' \<and> one_element ''0'' \<and> row_text ''1'' \<and> one_element ''1''" by code_simp
  then have texts: "row_text x \<and> one_element x"
    if "Inr [[''0'', ''1'']] = (Inr bs :: err + string list list)" "b \<in> set bs" "x \<in> set b" for bs b x
    using that by auto
  from sql_wire_array [where c = "cache_new 4 f32_one", OF valid demo_sql_run demo_encode texts]
  show ?thesis by simp
qed

end
