(* ===== verification/Grpc.thy ===== *)
theory Grpc
  imports Http
begin

text \<open>
  \<open>src/gateway/grpc/service.rs\<close> over the messages of \<open>proto/query_engine.proto\<close>: the second door to
  the same state. \<open>row_count\<close> is the message's \<open>uint32\<close>.
\<close>

section \<open>Messages\<close>

datatype status_code = Invalid_Argument | Internal

type_synonym rpc_status = "status_code \<times> string"

record sql_query_response =
  rpc_json_lines :: string
  row_count :: "32 word"

record semantic_query_request =
  rpc_query :: string
  rpc_top_k :: "32 word"

record retrieved_record =
  rec_kunnr :: string
  rec_sentence :: string
  rec_score :: f32

record semantic_query_response =
  rpc_answer :: string
  records :: "retrieved_record list"

record health_check_response =
  rpc_status_text :: string
  rpc_llm_connected :: bool
  rpc_vector_db_connected :: bool
  rpc_total_records :: "64 word"

section \<open>The service\<close>

definition check_health ::
  "('w, 'q, 'o, 'p, 'b, 'conn, 'tbl, 'res, 'enc, 'j) app_state \<Rightarrow> 'w served
     \<Rightarrow> health_check_response \<times> 'w served" where
  "check_health s = (\<lambda>(c, w).
     let (llm_online, w1) = is_healthy (llm_http s) (llm_client s) w;
         (stats, w2) = check_lancedb_health (database s) (vector_db_uri s) w1;
         (connected, total) = (case stats of Inr n \<Rightarrow> (True, of_nat n) | Inl _ \<Rightarrow> (False, 0));
         st = (if llm_online \<and> connected then ''healthy''
               else if connected then ''degraded'' else ''unhealthy'')
     in (\<lparr>rpc_status_text = st, rpc_llm_connected = llm_online, rpc_vector_db_connected = connected,
          rpc_total_records = total\<rparr>, (c, w2)))"

text \<open>The check both methods repeat, each with its own name for the query.\<close>

definition rpc_query_check :: "string \<Rightarrow> string \<Rightarrow> nat \<Rightarrow> rpc_status + string" where
  "rpc_query_check query what max_chars =
     (let trimmed = trim query in
      if trimmed = [] then Inl (Invalid_Argument, what @ '' cannot be empty'')
      else if max_chars < length trimmed
      then Inl (Invalid_Argument,
             what @ '' exceeds maximum length of '' @ show_nat max_chars @ '' characters'')
      else Inr trimmed)"

definition execute_sql ::
  "('w, 'q, 'o, 'p, 'b, 'conn, 'tbl, 'res, 'enc, 'j) app_state \<Rightarrow> string
     \<Rightarrow> ('w served, rpc_status, sql_query_response) io" where
  "execute_sql s query =
     io_try (io_lift (rpc_query_check query ''SQL query'' (max_query_chars s))) (\<lambda>trimmed.
     io_try (io_map_err (\<lambda>e. (Invalid_Argument, ''SQL Execution Error: '' @ display e))
       (outside (execute_sql_query (sql_parser s) (sql_engine s) (environment s) trimmed))) (\<lambda>batches.
     case write_record_batches_as_json_lines (json_writer s) vec_write batches [] of
       (Inl e, _) \<Rightarrow> io_err (Internal, ''Serialization Error: '' @ display e)
     | (Inr _, raw_lines) \<Rightarrow>
         io_ok \<lparr>rpc_json_lines = raw_lines,
                row_count = of_nat (sum_list (map (num_rows (json_writer s)) batches))\<rparr>))"

definition semantic_records :: "semantic_query_result \<Rightarrow> semantic_query_response" where
  "semantic_records result =
     (case result of
        Verified v \<Rightarrow>
          \<lparr>rpc_answer = answer v,
           records = [\<lparr>rec_kunnr = source_chunk_id v, rec_sentence = exact_quote v,
                       rec_score = (if answer_found v then f32_one else f32_zero)\<rparr>]\<rparr>
      | Degraded d \<Rightarrow>
          \<lparr>rpc_answer = message d,
           records = map (\<lambda>ch. \<lparr>rec_kunnr = chunk_id ch, rec_sentence = content ch,
                                 rec_score = f32_zero\<rparr>) (retrieved_chunks d)\<rparr>)"

definition execute_semantic ::
  "('w, 'q, 'o, 'p, 'b, 'conn, 'tbl, 'res, 'enc, 'j) app_state \<Rightarrow> semantic_query_request
     \<Rightarrow> ('w served, rpc_status, semantic_query_response) io" where
  "execute_semantic s inner =
     io_try (io_lift (rpc_query_check (rpc_query inner) ''Semantic query'' (max_query_chars s)))
       (\<lambda>trimmed.
     io_try (io_map_err (\<lambda>e. (Internal, ''Semantic pipeline error: '' @ display e))
       (run_semantic_pipeline s trimmed)) (\<lambda>result.
     io_ok (semantic_records result)))"

section \<open>The two doors\<close>

text \<open>The status an HTTP client sees for the gRPC status of the same failure.\<close>

fun http_code :: "status_code \<Rightarrow> nat" where
  "http_code Invalid_Argument = 400"
| "http_code Internal = 500"

lemma rpc_check_eq:
  "validate_query_str query what n =
     map_err (\<lambda>(code, m). new_error (http_code code) m) (rpc_query_check query what n)"
  by (simp add: validate_query_str_def rpc_query_check_def Let_def)

lemma rpc_check_ok:
  "rpc_query_check query what n = Inr t \<longleftrightarrow> t = trim query \<and> t \<noteq> [] \<and> length t \<le> n"
  by (auto simp: rpc_query_check_def Let_def)

lemma rpc_check_bad:
  "trim query = [] \<or> n < length (trim query) \<Longrightarrow>
    \<exists>m. rpc_query_check query what n = Inl (Invalid_Argument, m)"
  by (auto simp: rpc_query_check_def Let_def)

section \<open>Properties\<close>

text \<open>C19: The two doors agree on SQL: whatever the state, the database and the query, the HTTP handler
  gives the gRPC method's outcome - its rows framed as an array, or its failure under the
  corresponding status with the same text - and leaves the same state.\<close>

theorem sql_doors_agree:
  "sql_query_handler s q st =
     (case execute_sql s q st of
        (Inr resp, st') \<Rightarrow> (Inr (wire_frame (rpc_json_lines resp)), st')
      | (Inl (code, m), st') \<Rightarrow> (Inl (new_error (http_code code) m), st'))"
proof (cases "rpc_query_check q ''SQL query'' (max_query_chars s)")
  case (Inl e)
  then show ?thesis
    by (cases e) (simp add: sql_query_handler_def execute_sql_def rpc_check_eq io_simps)
next
  case (Inr t)
  obtain r st' where run: "outside (execute_sql_query (sql_parser s) (sql_engine s) (environment s) t) st =
      (r, st')" by (metis surj_pair)
  with Inr show ?thesis
    by (cases r) (simp_all add: sql_query_handler_def execute_sql_def rpc_check_eq io_simps io_map_err_def
        split: prod.split sum.split)
qed

text \<open>C21: A query that is blank or longer than the limit is refused at every door before any work: the
  three HTTP endpoints answer 400, the two gRPC methods an invalid argument, and neither the cache
  nor the outside (model, engine, database) is touched.\<close>

theorem invalid_query_refused:
  assumes "trim q = [] \<or> max_query_chars s < length (trim q)"
  shows "(\<exists>m. sql_query_handler s q st = (Inl (new_error 400 m), st)) \<and>
    (\<exists>m. semantic_query_handler s q st = (Inl (new_error 400 m), st)) \<and>
    (\<exists>m. router_query_handler s q st = (Inl (new_error 400 m), st)) \<and>
    (\<exists>m. execute_sql s q st = (Inl (Invalid_Argument, m), st)) \<and>
    (\<exists>m. execute_semantic s \<lparr>rpc_query = q, rpc_top_k = k\<rparr> st = (Inl (Invalid_Argument, m), st))"
proof -
  note http = validate_query_bad [OF assms] and rpc = rpc_check_bad [OF assms]
  obtain m1 m2 m3 m4 where
    "validate_query_str q ''SQL query'' (max_query_chars s) = Inl (new_error 400 m1)"
    "validate_query_str q ''Query'' (max_query_chars s) = Inl (new_error 400 m2)"
    "rpc_query_check q ''SQL query'' (max_query_chars s) = Inl (Invalid_Argument, m3)"
    "rpc_query_check q ''Semantic query'' (max_query_chars s) = Inl (Invalid_Argument, m4)"
    using http rpc by metis
  then show ?thesis
    by (auto simp: sql_query_handler_def semantic_query_handler_def router_query_handler_def
        execute_sql_def execute_semantic_def io_simps)
qed

theorem invalid_query_refused_witness:
  "\<exists>m. sql_query_handler (demo_app Inl) ''  '' (cache_new 1 f32_one, None) =
     (Inl (new_error 400 m), (cache_new 1 f32_one, None))"
proof -
  have "trim ''  '' = []" by code_simp
  then show ?thesis
    using invalid_query_refused [of "''  ''" "demo_app Inl" "(cache_new 1 f32_one, None)"] by blast
qed

text \<open>The row count of a gRPC answer counts the lines it comes with, modulo \<open>2 ^ 32\<close>; it is exact
  whenever the engine keeps to the row limit and the limit fits the field.\<close>

theorem grpc_row_count:
  assumes "rpc_query_check q ''SQL query'' (max_query_chars s) = Inr t"
    and "execute_sql_query (sql_parser s) (sql_engine s) (environment s) t w = (Inr bs, w')"
    and "\<And>b. b \<in> set bs \<Longrightarrow> encode_rows (json_writer s) b = Inr (rows b)"
    and "\<And>b. b \<in> set bs \<Longrightarrow> length (rows b) = num_rows (json_writer s) b"
  shows "\<exists>resp. execute_sql s q (c, w) = (Inr resp, (c, w')) \<and>
    rpc_json_lines resp = json_lines (concat (map rows bs)) \<and>
    unat (row_count resp) = length (concat (map rows bs)) mod 2 ^ 32 \<and>
    (length (concat (map rows bs)) \<le> max_sql_rows (environment s) \<and>
      max_sql_rows (environment s) < 2 ^ 32 \<longrightarrow>
      unat (row_count resp) = length (concat (map rows bs)))"
proof -
  let ?all = "concat (map rows bs)"
  have count: "sum_list (map (num_rows (json_writer s)) bs) = length ?all"
    using assms(4) by (simp add: length_concat comp_def cong: map_cong)
  have "write_record_batches_as_json_lines (json_writer s) vec_write bs [] = (Inr (), json_lines ?all)"
    using write_batches_vec [of bs "json_writer s" rows "[]"] assms(3) by simp
  then have "execute_sql s q (c, w) =
      (Inr \<lparr>rpc_json_lines = json_lines ?all, row_count = of_nat (length ?all)\<rparr>, (c, w'))"
    using assms(1,2) by (simp add: execute_sql_def io_simps io_map_err_def outside_def count)
  then show ?thesis by (auto simp: unat_of_nat)
qed

theorem grpc_row_count_witness:
  "\<exists>resp. execute_sql (demo_app Inl) '' SELECT *'' (cache_new 4 f32_one, demo_table) =
      (Inr resp, (cache_new 4 f32_one, demo_table)) \<and> unat (row_count resp) = 2"
proof -
  have valid: "rpc_query_check '' SELECT *'' ''SQL query'' (max_query_chars (demo_app Inl)) =
      Inr ''SELECT *''"
    by (simp add: rpc_check_ok demo_sql_trim demo_app_def)
  have count: "length b = num_rows (json_writer (demo_app Inl)) b" for b
    by (simp add: demo_app_def toy_arrow_def)
  from grpc_row_count [where c = "cache_new 4 f32_one", OF valid demo_sql_run demo_encode count]
  show ?thesis by auto
qed

end
