(* ===== verification/Server.thy ===== *)
theory Server
  imports Grpc
begin

text \<open>
  The two servers over one state, as \<open>start_dual_server\<close> runs them: requests at either door, one after
  the other, each meeting an arbitrary outside. The interface \<open>answering\<close> is what a door relies on
  when it hands a query to a pipeline.
\<close>

section \<open>Cache steps of a request\<close>

text \<open>Whatever a request does to the cache is a sequence of the cache's own operations.\<close>

definition steps_only :: "('w served, 'e, 'a) io \<Rightarrow> bool" where
  "steps_only m \<longleftrightarrow> (\<forall>c w r c' w'. m (c, w) = (r, (c', w')) \<longrightarrow> cache_step\<^sup>*\<^sup>* c c')"

named_theorems steps_intro "how operations on the cache compose"

lemma steps_onlyI: "(\<And>c w r c' w'. m (c, w) = (r, (c', w')) \<Longrightarrow> cache_step\<^sup>*\<^sup>* c c') \<Longrightarrow> steps_only m"
  by (auto simp: steps_only_def)

lemma steps_onlyD: "steps_only m \<Longrightarrow> m (c, w) = (r, (c', w')) \<Longrightarrow> cache_step\<^sup>*\<^sup>* c c'"
  unfolding steps_only_def by blast

lemma steps_pure [steps_intro]:
  "steps_only (io_ok x)" "steps_only (io_err e)" "steps_only (io_lift v)" "steps_only (outside n)"
  by (auto simp: io_simps outside_eq intro!: steps_onlyI)

lemma steps_io_try [steps_intro]:
  assumes "steps_only m" "\<And>x. steps_only (k x)"
  shows "steps_only (io_try m k)"
proof (rule steps_onlyI)
  fix c w r c' w'
  assume "io_try m k (c, w) = (r, (c', w'))"
  then show "cache_step\<^sup>*\<^sup>* c c'"
  proof (cases rule: io_try_cases)
    case (err e)
    then show ?thesis using assms(1) steps_onlyD by metis
  next
    case (ok x st)
    obtain c1 w1 where "st = (c1, w1)" by fastforce
    with ok have "cache_step\<^sup>*\<^sup>* c c1" "cache_step\<^sup>*\<^sup>* c1 c'"
      using steps_onlyD [OF assms(1)] steps_onlyD [OF assms(2) [of x]] by blast+
    then show ?thesis by simp
  qed
qed

lemma steps_map_err [steps_intro]: "steps_only m \<Longrightarrow> steps_only (io_map_err f m)"
  by (auto simp: io_map_err_def steps_only_def split: prod.splits)

lemma steps_store [steps_intro]: "steps_only (store_and_return s q v p)"
  by (rule steps_onlyI)
    (auto simp: store_and_return_def Let_def split: sum.splits intro: r_into_rtranclp cache_step.insert)

lemma steps_generate [steps_intro]: "steps_only (generate_answer s q parsed v cs)"
proof (rule steps_onlyI)
  fix c w r c' w'
  assume run: "generate_answer s q parsed v cs (c, w) = (r, (c', w'))"
  obtain reply w1 where ask: "ask_model s (build_semantic_prompt q cs) w = (reply, w1)"
    by (metis surj_pair)
  show "cache_step\<^sup>*\<^sup>* c c'"
  proof (cases reply)
    case (Inl e)
    with run ask show ?thesis by (auto simp: generate_answer_def)
  next
    case (Inr raw)
    have "steps_only (io_try (io_lift (verify_and_parse_llm_generation (response_from_str s) raw cs))
      (\<lambda>payload. io_try (outside (if answer_found payload then io_ok payload
         else absence_proof s q parsed payload)) (store_and_return s q v)))"
      by (intro steps_intro)
    from steps_onlyD [OF this] show ?thesis using run ask Inr by (simp add: generate_answer_def)
  qed
qed

lemma steps_search [steps_intro]: "steps_only (search_and_answer s q parsed v)"
  unfolding search_and_answer_def by (intro steps_intro)

text \<open>A look into the cache, then on.\<close>

lemma steps_look:
  assumes look: "\<And>c w. cache_step c (snd (look c w))" and go: "steps_only k"
    and hit: "\<And>bytes. steps_only (found bytes)"
  shows "steps_only (\<lambda>(c, w). case look c w of (Some bytes, c1) \<Rightarrow> found bytes (c1, w) | (None, c1) \<Rightarrow> k (c1, w))"
proof (rule steps_onlyI, goal_cases)
  case (1 c w r c' w')
  obtain hit1 c1 where l: "look c w = (hit1, c1)" by fastforce
  with look [of c w] have "cache_step c c1" by simp
  moreover have "cache_step\<^sup>*\<^sup>* c1 c'"
    using 1 l steps_onlyD [OF go] steps_onlyD [OF hit] by (auto split: option.splits)
  ultimately show ?case by (rule converse_rtranclp_into_rtranclp)
qed

lemma steps_embed [steps_intro]: "steps_only (embed_and_look s q parsed)"
proof -
  have eq: "embed_and_look s q parsed =
     io_try (io_lift (get_embeddings (environment s) (embedding_model s) [intent parsed])) (\<lambda>embeddings.
     case embeddings of
       [] \<Rightarrow> io_err NoEmbedding
     | v # _ \<Rightarrow>
         (\<lambda>(c, w). case get_similar c (clock s w) v of
            (Some bytes, c1) \<Rightarrow>
              (case result_from_slice s bytes of
                 Inr res \<Rightarrow> io_ok res | Inl _ \<Rightarrow> search_and_answer s q parsed v) (c1, w)
          | (None, c1) \<Rightarrow> search_and_answer s q parsed v (c1, w)))"
    unfolding embed_and_look_def
    by (intro arg_cong2 [where f = io_try] refl ext)
      (auto simp: io_ok_def split: list.split option.split sum.split prod.split)
  have "steps_only (\<lambda>(c, w). case get_similar c (clock s w) v of
            (Some bytes, c1) \<Rightarrow>
              (case result_from_slice s bytes of
                 Inr res \<Rightarrow> io_ok res | Inl _ \<Rightarrow> search_and_answer s q parsed v) (c1, w)
          | (None, c1) \<Rightarrow> search_and_answer s q parsed v (c1, w))" for v
    by (rule steps_look [where look = "\<lambda>c w. get_similar c (clock s w) v"])
      (auto intro: steps_intro cache_step.similar split: sum.split)
  then show ?thesis
    unfolding eq by (intro steps_intro) (auto intro: steps_intro split: list.split)
qed

lemma steps_parse [steps_intro]: "steps_only (parse_and_answer s q)"
  using steps_onlyD [OF steps_embed]
  by (intro steps_onlyI) (fastforce simp: parse_and_answer_def split: prod.splits sum.splits)

lemma steps_semantic [steps_intro]: "steps_only (run_semantic_pipeline s q)"
proof -
  have "run_semantic_pipeline s q =
     (\<lambda>(c, w). case get_exact c (clock s w) q of
        (Some bytes, c1) \<Rightarrow>
          (case result_from_slice s bytes of Inr res \<Rightarrow> io_ok res | Inl _ \<Rightarrow> parse_and_answer s q) (c1, w)
      | (None, c1) \<Rightarrow> parse_and_answer s q (c1, w))"
    unfolding run_semantic_pipeline_def
    by (intro ext) (auto simp: io_ok_def split: option.split sum.split prod.split)
  moreover have "steps_only \<dots>"
    by (rule steps_look [where look = "\<lambda>c w. get_exact c (clock s w) q"])
      (auto intro: steps_intro cache_step.exact split: sum.split)
  ultimately show ?thesis by simp
qed

lemma steps_wrapped: "steps_only (io_try (run_semantic_pipeline s q) (\<lambda>res. io_ok (f res)))"
  by (intro steps_intro)

lemma steps_routed [steps_intro]: "steps_only (run_routed_pipeline s q)"
proof (rule steps_onlyI)
  fix c w r c' w'
  assume run: "run_routed_pipeline s q (c, w) = (r, (c', w'))"
  obtain reply w1 where ask: "ask_model s (build_routing_prompt q) w = (reply, w1)" by (metis surj_pair)
  show "cache_step\<^sup>*\<^sup>* c c'"
  proof (cases reply)
    case (Inl e)
    with run ask show ?thesis by (auto simp: run_routed_pipeline_def intro: steps_onlyD [OF steps_wrapped])
  next
    case (Inr raw)
    with run ask show ?thesis
      by (auto simp: run_routed_pipeline_def Let_def split: if_splits
          intro: steps_onlyD [OF steps_wrapped] steps_onlyD [OF steps_pure(4)])
  qed
qed

lemma steps_sql_handler [steps_intro]: "steps_only (sql_query_handler s q)"
  unfolding sql_query_handler_def
  by (intro steps_intro) (auto intro: steps_intro split: prod.split sum.split)

lemma steps_semantic_handler [steps_intro]: "steps_only (semantic_query_handler s q)"
  unfolding semantic_query_handler_def by (intro steps_intro)

lemma steps_router_handler [steps_intro]: "steps_only (router_query_handler s q)"
  unfolding router_query_handler_def by (intro steps_intro)

lemma steps_execute_sql [steps_intro]: "steps_only (execute_sql s q)"
  unfolding execute_sql_def
  by (intro steps_intro) (auto intro: steps_intro split: prod.split sum.split)

lemma steps_execute_semantic [steps_intro]: "steps_only (execute_semantic s req)"
  unfolding execute_semantic_def by (intro steps_intro)

lemma health_frame:
  "health_handler s (c, w) = (reply, (c', w')) \<Longrightarrow> c' = c \<and> cache_entries (snd reply) = cache_len c"
  "check_health s (c, w) = (resp, (c', w')) \<Longrightarrow> c' = c"
  by (auto simp: health_handler_def check_health_def Let_def split: prod.splits sum.splits if_splits)

lemma steps_with_json:
  assumes "with_json web wrap h req (c, w) = (reply, (c', w'))" "\<And>q. steps_only (h q)"
  shows "cache_step\<^sup>*\<^sup>* c c'"
  using assms(1) steps_onlyD [OF assms(2)]
  by (auto simp: with_json_def split: sum.splits prod.splits)

lemma steps_router:
  assumes "create_router s web req (c, w) = (reply, (c', w'))"
  shows "cache_step\<^sup>*\<^sup>* c c'"
proof -
  have "cache_step\<^sup>*\<^sup>* c c'" if "route_request s web req (c, w1) = (reply, (c', w'))" for w1
    using that
    by (auto simp: route_request_def split: if_splits prod.splits dest: health_frame
        elim!: steps_with_json intro: steps_intro)
  with assms show ?thesis
    by (auto simp: create_router_def split: prod.splits sum.splits)
qed

section \<open>A door over a pipeline\<close>

text \<open>What a door needs of a pipeline: from a state that satisfies the invariant a run leaves one that
  does, and gives only results that are safe to pass on.\<close>

locale answering =
  fixes run :: "string \<Rightarrow> ('st, err, 'r) io"
    and inv :: "'st \<Rightarrow> bool"
    and safe :: "'r \<Rightarrow> bool"
  assumes run_keeps: "inv st \<Longrightarrow> run q st = (r, st') \<Longrightarrow> inv st'"
    and run_safe: "inv st \<Longrightarrow> run q st = (Inr x, st') \<Longrightarrow> safe x"
begin

lemma door:
  assumes "inv st" "io_try (io_lift v) (\<lambda>q. io_map_err f (run q)) st = (r, st')"
  shows "inv st' \<and> (\<forall>x. r = Inr x \<longrightarrow> safe x)"
  using assms run_keeps run_safe
  by (cases v) (auto simp: io_simps io_map_err_def map_err_Inr split: prod.splits)

lemma converting_door:
  assumes "inv st" "io_try (io_lift v) (\<lambda>q. io_try (io_map_err f (run q)) (\<lambda>x. io_ok (g x))) st = (r, st')"
  shows "inv st' \<and> (\<forall>y. r = Inr y \<longrightarrow> (\<exists>x. y = g x \<and> safe x))"
  using assms run_keeps run_safe
  by (cases v) (auto simp: io_simps io_map_err_def split: prod.splits sum.splits elim!: map_err.elims)

end

definition sound_state ::
  "('w, 'q, 'o, 'p, 'b, 'conn, 'tbl, 'res, 'enc, 'j) app_state \<Rightarrow> 'w served \<Rightarrow> bool" where
  "sound_state s st \<longleftrightarrow> codec_ok s \<and> order_sound (chunk_order s) \<and> good_cache s (fst st)"

definition safe_answer where
  "safe_answer s res \<longleftrightarrow> (\<forall>p. res = Verified p \<longrightarrow> grounded s p)"

fun routed_answer :: "'j routed_query_result \<Rightarrow> semantic_query_result option" where
  "routed_answer (Routed_Sql _ _) = None"
| "routed_answer (Routed_Semantic res) = Some res"
| "routed_answer (Semantic_Fallback res) = Some res"

definition safe_routed where
  "safe_routed s r \<longleftrightarrow> (\<forall>res. routed_answer r = Some res \<longrightarrow> safe_answer s res)"

interpretation semantic: answering "run_semantic_pipeline s" "sound_state s" "safe_answer s" for s
proof
  fix st q r st'
  assume "sound_state s st" "run_semantic_pipeline s q st = (r, st')"
  then show "sound_state s st'"
    using pipeline_post [of s "fst st" q "snd st" r "fst st'" "snd st'"]
    by (simp add: sound_state_def stage_post_def)
next
  fix st q x st'
  assume "sound_state s st" "run_semantic_pipeline s q st = (Inr x, st')"
  then show "safe_answer s x"
    using pipeline_post [of s "fst st" q "snd st" "Inr x" "fst st'" "snd st'"]
    by (simp add: sound_state_def stage_post_def safe_answer_def)
qed

lemma routed_cases:
  assumes "run_routed_pipeline s q (c, w) = (r, st')"
  shows "(\<exists>w1 f. io_try (run_semantic_pipeline s q) (\<lambda>res. io_ok (f res)) (c, w1) = (r, st') \<and>
        f \<in> {Routed_Semantic, Semantic_Fallback}) \<or>
      (fst st' = c \<and> (\<forall>x. r = Inr x \<longrightarrow> routed_answer x = None))"
proof -
  obtain reply w1 where ask: "ask_model s (build_routing_prompt q) w = (reply, w1)" by (metis surj_pair)
  have sql: "fst st' = c \<and> (\<forall>x. r = Inr x \<longrightarrow> routed_answer x = None)"
    if "outside (execute_routed_sql s q) (c, w1) = (r, st')"
    using that by (cases st')
      (auto simp: outside_eq execute_routed_sql_def result_simps io_ok_def)
  show ?thesis
  proof (cases reply)
    case (Inl e)
    with assms ask show ?thesis by (auto simp: run_routed_pipeline_def)
  next
    case (Inr raw)
    with assms ask sql show ?thesis by (auto simp: run_routed_pipeline_def Let_def split: if_splits)
  qed
qed

lemma wrapped_answer:
  assumes "sound_state s (c, w)"
    and "io_try (run_semantic_pipeline s q) (\<lambda>res. io_ok (f res)) (c, w) = (r, st')"
    and "f \<in> {Routed_Semantic, Semantic_Fallback}"
  shows "sound_state s st' \<and> (\<forall>x. r = Inr x \<longrightarrow> safe_routed s x)"
  using assms(2)
proof (cases rule: io_try_cases)
  case (err e)
  with assms(1) show ?thesis using semantic.run_keeps by blast
next
  case (ok res st)
  with assms show ?thesis
    using semantic.run_keeps [OF assms(1) ok(1)] semantic.run_safe [OF assms(1) ok(1)]
    by (auto simp: io_ok_def safe_routed_def)
qed

lemma routed_sound:
  assumes "sound_state s st" "run_routed_pipeline s q st = (r, st')"
  shows "sound_state s st' \<and> (\<forall>x. r = Inr x \<longrightarrow> safe_routed s x)"
proof -
  obtain c w where st: "st = (c, w)" by fastforce
  have sound: "sound_state s (c, w1)" for w1 using assms(1) st by (simp add: sound_state_def)
  from routed_cases [OF assms(2) [unfolded st]] show ?thesis
  proof
    assume "\<exists>w1 f. io_try (run_semantic_pipeline s q) (\<lambda>res. io_ok (f res)) (c, w1) = (r, st') \<and>
      f \<in> {Routed_Semantic, Semantic_Fallback}"
    then show ?thesis using wrapped_answer [OF sound] by blast
  next
    assume "fst st' = c \<and> (\<forall>x. r = Inr x \<longrightarrow> routed_answer x = None)"
    with assms(1) st show ?thesis by (simp add: sound_state_def safe_routed_def)
  qed
qed

interpretation routed: answering "run_routed_pipeline s" "sound_state s" "safe_routed s" for s
  by unfold_locales (use routed_sound in blast)+

section \<open>Serving requests\<close>

datatype rpc_request = Call_Health | Call_Sql string | Call_Semantic semantic_query_request

datatype rpc_reply =
    Health_Reply health_check_response
  | Sql_Reply "rpc_status + sql_query_response"
  | Semantic_Reply "rpc_status + semantic_query_response"

definition query_service where
  "query_service s req st =
     (case req of
        Call_Health \<Rightarrow> (case check_health s st of (r, st') \<Rightarrow> (Health_Reply r, st'))
      | Call_Sql q \<Rightarrow> (case execute_sql s q st of (r, st') \<Rightarrow> (Sql_Reply r, st'))
      | Call_Semantic inner \<Rightarrow> (case execute_semantic s inner st of (r, st') \<Rightarrow> (Semantic_Reply r, st')))"

text \<open>The caches of a running service: both doors share one, the outside moves between requests.\<close>

inductive serving for s web cap thr where
  boot: "serving s web cap thr (cache_new cap thr)"
| http: "serving s web cap thr c \<Longrightarrow> create_router s web req (c, w) = (reply, (c', w')) \<Longrightarrow>
    serving s web cap thr c'"
| rpc: "serving s web cap thr c \<Longrightarrow> query_service s rpc_req (c, w) = (rpc_rep, (c', w')) \<Longrightarrow>
    serving s web cap thr c'"

lemma serving_reachable: "serving s web cap thr c \<Longrightarrow> cache_reachable cap thr c"
proof (induction rule: serving.induct)
  case boot
  show ?case by (rule cache_reachable.new)
next
  case (http c req w reply c' w')
  have "cache_step\<^sup>*\<^sup>* c c'" using http.hyps(2) by (rule steps_router)
  then show ?case using http.IH by induction (auto intro: cache_reachable.step)
next
  case (rpc c rpc_req w rpc_rep c' w')
  have "cache_step\<^sup>*\<^sup>* c c'"
    using rpc.hyps(2) steps_onlyD [OF steps_execute_sql] steps_onlyD [OF steps_execute_semantic]
    by (auto simp: query_service_def split: rpc_request.splits prod.splits dest: health_frame)
  then show ?case using rpc.IH by induction (auto intro: cache_reachable.step)
qed

text \<open>The verified answers a reply carries.\<close>

fun body_answer :: "'j http_body \<Rightarrow> semantic_query_result option" where
  "body_answer (Semantic_Body res) = Some res"
| "body_answer (Routed_Body r) = routed_answer r"
| "body_answer _ = None"

lemma sql_handler_frame: "sql_query_handler s q (c, w) = (r, (c', w')) \<Longrightarrow> c' = c"
  by (auto simp: sql_query_handler_def io_simps io_map_err_def outside_def
      split: prod.splits sum.splits)

lemma execute_sql_frame: "execute_sql s q (c, w) = (r, (c', w')) \<Longrightarrow> c' = c"
  by (auto simp: execute_sql_def io_simps io_map_err_def outside_def
      split: prod.splits sum.splits)

lemma into_reply_answer:
  "body_answer (snd (into_reply wrap r)) = Some res \<Longrightarrow> \<exists>x. r = Inr x \<and> body_answer (wrap x) = Some res"
  by (auto simp: into_reply_def split: sum.splits prod.splits)

lemma router_safe:
  assumes sound: "sound_state s (c, w)" and run: "create_router s web req (c, w) = (reply, (c', w'))"
  shows "sound_state s (c', w') \<and> (\<forall>res. body_answer (snd reply) = Some res \<longrightarrow> safe_answer s res)"
proof -
  have sound1: "sound_state s (c, w1)" for w1 using sound by (simp add: sound_state_def)
  note doors = semantic.door [OF sound1] routed.door [OF sound1]
  have "sound_state s (c', w') \<and> (\<forall>res. body_answer (snd reply) = Some res \<longrightarrow> safe_answer s res)"
    if "route_request s web req (c, w1) = (reply, (c', w'))" for w1
    using that sound1
    by (auto simp: route_request_def with_json_def semantic_query_handler_def router_query_handler_def
        sound_state_def into_reply_def safe_routed_def
        split: if_splits prod.splits sum.splits
        dest!: doors health_frame sql_handler_frame)
  with run sound1 show ?thesis
    by (auto simp: create_router_def sound_state_def split: prod.splits sum.splits)
qed

lemma semantic_rpc_safe:
  assumes "sound_state s (c, w)" "execute_semantic s req (c, w) = (r, (c', w'))"
  shows "sound_state s (c', w') \<and>
    (\<forall>resp. r = Inr resp \<longrightarrow> (\<exists>res. resp = semantic_records res \<and> safe_answer s res))"
  using semantic.converting_door [OF assms(1)] assms(2) unfolding execute_semantic_def by blast

lemma semantic_records_safe:
  assumes "safe_answer s res" "rc \<in> set (records (semantic_records res))" "rec_score rc = f32_one"
  shows "\<exists>name city. str_contains (chunk_text s (rec_kunnr rc) name city) (rec_sentence rc)"
proof -
  have zero: "f32_zero \<noteq> f32_one" by code_simp
  show ?thesis
  proof (cases res)
    case (Verified v)
    with assms zero have "answer_found v" "rc = \<lparr>rec_kunnr = source_chunk_id v,
        rec_sentence = exact_quote v, rec_score = f32_one\<rparr>"
      by (simp_all add: semantic_records_def split: if_splits)
    with Verified assms(1) show ?thesis by (simp add: safe_answer_def grounded_def)
  next
    case (Degraded d)
    with assms zero show ?thesis by (auto simp: semantic_records_def)
  qed
qed

lemma service_safe:
  assumes "sound_state s (c, w)" "query_service s req (c, w) = (reply, (c', w'))"
  shows "sound_state s (c', w')"
  using assms semantic_rpc_safe [OF assms(1)]
  by (auto simp: query_service_def sound_state_def split: rpc_request.splits prod.splits
      dest: health_frame execute_sql_frame)

lemma serving_sound:
  assumes "codec_ok s" "order_sound (chunk_order s)" "serving s web cap thr c"
  shows "sound_state s (c, w)"
  using assms(3)
proof (induction arbitrary: w rule: serving.induct)
  case boot
  then show ?case using assms(1,2) new_cache_good by (simp add: sound_state_def)
next
  case (http c req w1 reply c' w')
  from router_safe [OF http.IH http.hyps(2)] show ?case by (simp add: sound_state_def)
next
  case (rpc c rpc_req w1 rpc_rep c' w')
  from service_safe [OF rpc.IH rpc.hyps(2)] show ?case by (simp add: sound_state_def)
qed

section \<open>A small service\<close>

definition demo_web :: "'w web" where
  "demo_web = \<lparr>admit = (\<lambda>_ _. io_ok ()), json_body = (\<lambda>text. Inr \<lparr>query_text = text\<rparr>),
     no_route = (\<lambda>_. (404, []))\<rparr>"

definition post :: "string \<Rightarrow> string \<Rightarrow> http_request" where
  "post path text = \<lparr>verb = Post, req_path = path, req_body = text\<rparr>"

lemma demo_post:
  "\<exists>c'. create_router (demo_app (\<lambda>_. Inr ''A'')) demo_web (post ''/query/semantic'' ''who'')
      (cache_new 4 f32_one, demo_table) =
    ((200, Semantic_Body (Verified demo_answer)), (c', demo_table))"
proof -
  have "trim ''who'' = ''who''" by code_simp
  then have valid: "validate_query_str ''who'' ''Query'' (max_query_chars (demo_app (\<lambda>_. Inr ''A''))) = Inr ''who''"
    by (simp add: validate_query_ok demo_app_def)
  obtain c' where "run_semantic_pipeline (demo_app (\<lambda>_. Inr ''A'')) ''who'' (cache_new 4 f32_one, demo_table) =
      (Inr (Verified demo_answer), (c', demo_table))"
    using demo_run_up by blast
  with valid have "semantic_query_handler (demo_app (\<lambda>_. Inr ''A'')) ''who'' (cache_new 4 f32_one, demo_table) =
      (Inr (Verified demo_answer), (c', demo_table))"
    by (simp add: semantic_query_handler_def io_lift_def io_map_err_def)
  then show ?thesis
    by (simp add: create_router_def route_request_def with_json_def demo_web_def post_def io_ok_def into_reply_def)
qed

end
