(* ===== verification/Concurrent.thy ===== *)
theory Concurrent
  imports Pipeline
begin

text \<open>
  The semantic pipeline as its asynchronous task runs: a state machine whose steps are its atomic
  accesses to the shared cache and the awaits between them. Any number of clients take their steps in
  any order; a client may be dropped at any await.
\<close>

section \<open>One client\<close>

text \<open>Where the task of a question stands, with what it carries; the constructor names the next thing it
  does. Calls to the outside between two accesses to the cache are one step.\<close>

datatype client =
    Start string
  | Parsing string
  | Embedding string parsed_question
  | Searching string parsed_question "f32 list"
  | Answering string parsed_question "f32 list" chunk_list
  | Proving string parsed_question "f32 list" semantic_response
  | Storing string "f32 list" semantic_response
  | Finished "err + semantic_query_result"

definition with_cached where
  "with_cached s onward look w =
     (case look of
        (Some bytes, c1) \<Rightarrow>
          (case result_from_slice s bytes of
             Inr res \<Rightarrow> (Finished (Inr res), (c1, w))
           | Inl _ \<Rightarrow> (onward, (c1, w)))
      | (None, c1) \<Rightarrow> (onward, (c1, w)))"

fun client_step ::
  "('w, 'q, 'o, 'p, 'b, 'conn, 'tbl, 'res, 'enc, 'j) app_state \<Rightarrow> client \<Rightarrow> 'w served \<Rightarrow> client \<times> 'w served"
where
  "client_step s (Start q) (c, w) = with_cached s (Parsing q) (get_exact c (clock s w) q) w"
| "client_step s (Parsing q) (c, w) =
     (case ask_model s (build_question_parser_prompt q) w of
        (Inr raw, w1) \<Rightarrow>
          (Embedding q (case parse_llm_json (question_from_str s) raw of
                          Inr parsed \<Rightarrow> parsed | Inl _ \<Rightarrow> raw_question q), (c, w1))
      | (Inl _, w1) \<Rightarrow> (Embedding q (raw_question q), (c, w1)))"
| "client_step s (Embedding q parsed) (c, w) =
     (case get_embeddings (environment s) (embedding_model s) [intent parsed] of
        Inl e \<Rightarrow> (Finished (Inl e), (c, w))
      | Inr [] \<Rightarrow> (Finished (Inl NoEmbedding), (c, w))
      | Inr (v # _) \<Rightarrow> with_cached s (Searching q parsed v) (get_similar c (clock s w) v) w)"
| "client_step s (Searching q parsed v) (c, w) =
     (case retrieve_chunks s parsed v w of
        (Inl e, w1) \<Rightarrow> (Finished (Inl e), (c, w1))
      | (Inr chunks, w1) \<Rightarrow>
          (case rerank_stage s q chunks of
             Inl e \<Rightarrow> (Finished (Inl e), (c, w1))
           | Inr candidates \<Rightarrow> (Answering q parsed v candidates, (c, w1))))"
| "client_step s (Answering q parsed v candidates) (c, w) =
     (case ask_model s (build_semantic_prompt q candidates) w of
        (Inl e, w1) \<Rightarrow> (Finished (Inr (build_degraded_response candidates e)), (c, w1))
      | (Inr raw, w1) \<Rightarrow>
          (case verify_and_parse_llm_generation (response_from_str s) raw candidates of
             Inl e \<Rightarrow> (Finished (Inl e), (c, w1))
           | Inr payload \<Rightarrow>
               ((if answer_found payload then Storing q v payload else Proving q parsed v payload),
                (c, w1))))"
| "client_step s (Proving q parsed v payload) (c, w) =
     (case absence_proof s q parsed payload w of
        (Inl e, w1) \<Rightarrow> (Finished (Inl e), (c, w1))
      | (Inr p, w1) \<Rightarrow> (Storing q v p, (c, w1)))"
| "client_step s (Storing q v payload) (c, w) =
     (case store_and_return s q v payload (c, w) of (r, st) \<Rightarrow> (Finished r, st))"
| "client_step s (Finished r) st = (Finished r, st)"

fun run_alone where
  "run_alone s 0 pc st = (pc, st)"
| "run_alone s (Suc n) pc st = (case client_step s pc st of (pc', st') \<Rightarrow> run_alone s n pc' st')"

text \<open>What is left to do of the pipeline at each point.\<close>

fun rest_of where
  "rest_of s (Start q) = run_semantic_pipeline s q"
| "rest_of s (Parsing q) = parse_and_answer s q"
| "rest_of s (Embedding q parsed) = embed_and_look s q parsed"
| "rest_of s (Searching q parsed v) = search_and_answer s q parsed v"
| "rest_of s (Answering q parsed v candidates) = generate_answer s q parsed v candidates"
| "rest_of s (Proving q parsed v payload) =
     io_try (outside (absence_proof s q parsed payload)) (store_and_return s q v)"
| "rest_of s (Storing q v payload) = store_and_return s q v payload"
| "rest_of s (Finished r) = (\<lambda>st. (r, st))"

fun steps_left :: "client \<Rightarrow> nat" where
  "steps_left (Start _) = 7"
| "steps_left (Parsing _) = 6"
| "steps_left (Embedding _ _) = 5"
| "steps_left (Searching _ _ _) = 4"
| "steps_left (Answering _ _ _ _) = 3"
| "steps_left (Proving _ _ _ _) = 2"
| "steps_left (Storing _ _ _) = 1"
| "steps_left (Finished _) = 0"

lemma step_rest: "client_step s pc st = (pc', st') \<Longrightarrow> rest_of s pc st = rest_of s pc' st'"
proof (induction s pc st rule: client_step.induct)
  case (1 s q c w)
  then show ?case
    by (auto simp: with_cached_def run_semantic_pipeline_def split: prod.splits option.splits sum.splits)
next
  case (2 s q c w)
  then show ?case by (auto simp: parse_and_answer_def split: prod.splits sum.splits)
next
  case (3 s q parsed c w)
  then show ?case
    by (auto simp: with_cached_def embed_and_look_def io_simps
        split: prod.splits option.splits sum.splits list.splits)
next
  case (4 s q parsed v c w)
  then show ?case
    by (auto simp: search_and_answer_def io_simps outside_def split: prod.splits sum.splits)
next
  case (5 s q parsed v candidates c w)
  then show ?case
    by (auto simp: generate_answer_def io_simps outside_def split: prod.splits sum.splits if_splits)
next
  case (6 s q parsed v payload c w)
  then show ?case by (auto simp: io_simps outside_def split: prod.splits sum.splits)
qed (auto split: prod.splits)

lemma step_progress:
  "client_step s pc st = (pc', st') \<Longrightarrow> steps_left pc' < steps_left pc \<or> (\<exists>r. pc = Finished r \<and> pc' = pc)"
  by (induction s pc st rule: client_step.induct)
    (auto simp: with_cached_def split: prod.splits option.splits sum.splits list.splits if_splits)

lemma finished_iff: "steps_left pc = 0 \<longleftrightarrow> (\<exists>r. pc = Finished r)"
  by (cases pc) auto

lemma run_alone_finishes:
  "steps_left pc \<le> n \<Longrightarrow> run_alone s n pc st = (case rest_of s pc st of (r, st') \<Rightarrow> (Finished r, st'))"
proof (induction n arbitrary: pc st)
  case 0
  then obtain r where "pc = Finished r" using finished_iff by auto
  then show ?case by simp
next
  case (Suc n)
  obtain pc' st' where step: "client_step s pc st = (pc', st')" by (metis surj_pair)
  then have "steps_left pc' \<le> n" using step_progress [OF step] Suc.prems by auto
  with step Suc.IH step_rest [OF step] show ?case by simp
qed

text \<open>A client among others: before each of its steps the shared state may be anything.\<close>

fun run_against where
  "run_against s pc [] = pc"
| "run_against s pc (st # sts) = run_against s (fst (client_step s pc st)) sts"

lemma run_against_finishes:
  "steps_left pc \<le> length sts \<Longrightarrow> \<exists>r. run_against s pc sts = Finished r"
proof (induction sts arbitrary: pc)
  case Nil
  then show ?case using finished_iff by simp
next
  case (Cons st sts)
  have "steps_left (fst (client_step s pc st)) \<le> length sts"
    using step_progress [of s pc st] Cons.prems by (cases "client_step s pc st") auto
  then show ?case using Cons.IH by simp
qed

section \<open>All clients\<close>

text \<open>The clients under way and the cache they share. Clients arrive, move one at a time - the outside
  being whatever it is by then - and leave, finished or not.\<close>

inductive concurrent for s cap thr where
  boot: "concurrent s cap thr ([], cache_new cap thr)"
| arrive: "concurrent s cap thr (pcs, c) \<Longrightarrow> concurrent s cap thr (pcs @ [Start q], c)"
| move: "concurrent s cap thr (pcs, c) \<Longrightarrow> i < length pcs \<Longrightarrow>
    client_step s (pcs ! i) (c, w) = (pc', (c', w')) \<Longrightarrow> concurrent s cap thr (pcs[i := pc'], c')"
| leave: "concurrent s cap thr (pcs, c) \<Longrightarrow> concurrent s cap thr (take i pcs @ drop (Suc i) pcs, c)"

inductive_cases concurrentE: "concurrent s cap thr (pcs, c)"

text \<open>What a client carries is sound: candidates are rows of the database, a payload is grounded.\<close>

fun client_ok where
  "client_ok s (Answering q parsed v candidates) = row_chunks_only s candidates"
| "client_ok s (Proving q parsed v payload) = grounded s payload"
| "client_ok s (Storing q v payload) = grounded s payload"
| "client_ok s (Finished r) = (\<forall>p. r = Inr (Verified p) \<longrightarrow> grounded s p)"
| "client_ok s _ = True"

lemma cached_ok:
  assumes "good_cache s c" "with_cached s onward look w = (pc', (c', w'))" "client_ok s onward"
    and "\<And>bytes. fst look = Some bytes \<Longrightarrow> bytes \<in> cache_responses c"
    and "cache_responses (snd look) = cache_responses c"
  shows "good_cache s c' \<and> client_ok s pc'"
  using assms
  by (cases look)
    (auto simp: with_cached_def good_cache_def cache.all_responses_def good_bytes_def
      split: option.splits sum.splits)

lemma step_ok:
  assumes "codec_ok s" "order_sound (chunk_order s)"
    and "good_cache s c" "client_ok s pc" "client_step s pc (c, w) = (pc', (c', w'))"
  shows "good_cache s c' \<and> client_ok s pc'"
proof (cases pc)
  case (Start q)
  obtain r c1 where look: "get_exact c (clock s w) q = (r, c1)" by fastforce
  have run: "with_cached s (Parsing q) (r, c1) w = (pc', (c', w'))" using assms(5) Start look by simp
  have "bytes \<in> cache_responses c" if "fst (r, c1) = Some bytes" for bytes
    using that look cache.exact_hit by simp
  from cached_ok [OF assms(3) run _ this] show ?thesis
    using cache.exact_frame [OF look] by simp
next
  case (Embedding q parsed)
  show ?thesis
  proof (cases "\<exists>v vs. get_embeddings (environment s) (embedding_model s) [intent parsed] = Inr (v # vs)")
    case True
    then obtain v vs where emb:
      "get_embeddings (environment s) (embedding_model s) [intent parsed] = Inr (v # vs)" by blast
    obtain r c1 where look: "get_similar c (clock s w) v = (r, c1)" by fastforce
    have run: "with_cached s (Searching q parsed v) (r, c1) w = (pc', (c', w'))"
      using assms(5) Embedding look emb by simp
    have "bytes \<in> cache_responses c" if "fst (r, c1) = Some bytes" for bytes
      using that look cache.similar_hit by simp
    from cached_ok [OF assms(3) run _ this] show ?thesis
      using cache.similar_frame [OF look] by simp
  next
    case False
    with assms(3,5) Embedding show ?thesis by (auto split: sum.splits list.splits)
  qed
next
  case (Searching q parsed v)
  with assms(3,5) show ?thesis
    by (auto split: prod.splits sum.splits dest!: retrieve_row_chunks intro: rerank_row_chunks)
next
  case (Answering q parsed v candidates)
  with assms(3,4,5) show ?thesis
    by (auto simp: build_degraded_response_def split: prod.splits sum.splits if_splits intro: verify_grounded)
next
  case (Proving q parsed v payload)
  with assms(2,3,4,5) show ?thesis
    by (auto split: prod.splits sum.splits intro: absence_proof_grounded)
next
  case (Storing q v payload)
  then obtain r where run: "store_and_return s q v payload (c, w) = (r, (c', w'))" "pc' = Finished r"
    using assms(5) by (auto split: prod.splits)
  have "grounded s payload" using assms(4) Storing by simp
  from store_post [OF assms(3,1) this run(1)] run(2) show ?thesis by (simp add: stage_post_def)
qed (use assms(3,4,5) in \<open>auto split: prod.splits sum.splits\<close>)

lemma step_cache:
  assumes "client_step s pc (c, w) = (pc', (c', w'))"
  shows "c' = c \<or> cache_step c c'"
proof -
  have look: "c1 = c \<or> cache_step c c1 \<Longrightarrow> with_cached s onward (r, c1) w = (pc', (c', w')) \<Longrightarrow> c' = c \<or> cache_step c c'"
    for onward r c1
    by (auto simp: with_cached_def split: option.splits sum.splits)
  have exact: "get_exact c t q = (r, c1) \<Longrightarrow> cache_step c c1" for t q r c1
    using cache_step.exact [of c t q] by simp
  have similar: "get_similar c t v = (r, c1) \<Longrightarrow> cache_step c c1" for t v r c1
    using cache_step.similar [of c t v] by simp
  show ?thesis
  proof (cases pc)
    case (Start q)
    obtain r c1 where l: "get_exact c (clock s w) q = (r, c1)" by fastforce
    then show ?thesis using look [OF _ assms [unfolded Start client_step.simps l]] exact by blast
  next
    case (Embedding q parsed)
    have "\<And>v r c1. get_similar c (clock s w) v = (r, c1) \<Longrightarrow>
      with_cached s (Searching q parsed v) (r, c1) w = (pc', (c', w')) \<Longrightarrow> c' = c \<or> cache_step c c'"
      using look similar by blast
    then show ?thesis
      using assms Embedding by (auto split: sum.splits list.splits) (metis surj_pair)
  next
    case (Storing q v payload)
    then show ?thesis
      using assms by (auto simp: store_and_return_def Let_def split: sum.splits intro: cache_step.insert)
  qed (use assms in \<open>auto split: prod.splits sum.splits\<close>)
qed

lemma concurrent_inv:
  assumes "codec_ok s" "order_sound (chunk_order s)" "concurrent s cap thr config"
  shows "good_cache s (snd config) \<and> cache_reachable cap thr (snd config) \<and>
    (\<forall>pc \<in> set (fst config). client_ok s pc)"
  using assms(3)
proof (induction rule: concurrent.induct)
  case boot
  then show ?case by (simp add: new_cache_good cache_reachable.new)
next
  case (arrive pcs c q)
  then show ?case by auto
next
  case (move pcs c i w pc' c' w')
  then have old: "client_ok s (pcs ! i)" by simp
  from step_ok [OF assms(1,2) _ old move.hyps(3)] step_cache [OF move.hyps(3)] move.IH
  show ?case
    by (auto dest: cache_reachable.step dest!: subsetD [OF set_update_subset_insert])
next
  case (leave pcs c i)
  then show ?case by (auto dest: in_set_takeD in_set_dropD)
qed

lemma alone_concurrent:
  "concurrent s cap thr ([pc], c) \<Longrightarrow> run_alone s n pc (c, w) = (pc', (c', w')) \<Longrightarrow>
    concurrent s cap thr ([pc'], c')"
proof (induction n arbitrary: pc c w)
  case 0
  then show ?case by simp
next
  case (Suc n)
  obtain pc1 c1 w1 where step: "client_step s pc (c, w) = (pc1, (c1, w1))" by (metis surj_pair)
  then have "concurrent s cap thr ([pc1], c1)"
    using concurrent.move [OF Suc.prems(1), of 0 w pc1 c1 w1] by simp
  then show ?case using Suc.IH Suc.prems(2) step by simp
qed

section \<open>Properties\<close>

text \<open>The state machine is the pipeline: a client whose steps no other client disturbs is finished
  after seven of them, with the result, the cache and the outside of \<open>run_semantic_pipeline\<close>.\<close>

theorem client_refines_pipeline:
  "run_alone s 7 (Start q) st =
     (case run_semantic_pipeline s q st of (r, st') \<Rightarrow> (Finished r, st'))"
  using run_alone_finishes [of "Start q" 7] by simp




end
