(* ===== verification/Tasks.thy ===== *)
theory Tasks
  imports Server Concurrent
begin

text \<open>
  The requests of both doors as the runtime runs them: a task whose steps are its accesses to the shared
  cache and the awaits between them, so that the tasks of many requests interleave. A task alone does
  what the handler does.
\<close>

section \<open>HTTP\<close>

text \<open>Which endpoint a run of the semantic pipeline answers for.\<close>

datatype answer_kind = Plain | By_Router | By_Fallback

fun answer_body :: "answer_kind \<Rightarrow> semantic_query_result \<Rightarrow> 'j http_body" where
  "answer_body Plain res = Semantic_Body res"
| "answer_body By_Router res = Routed_Body (Routed_Semantic res)"
| "answer_body By_Fallback res = Routed_Body (Semantic_Fallback res)"

fun error_prefix :: "answer_kind \<Rightarrow> string" where
  "error_prefix Plain = ''Semantic pipeline error: ''"
| "error_prefix _ = ''Routed query error: ''"

definition semantic_reply :: "answer_kind \<Rightarrow> err + semantic_query_result \<Rightarrow> 'j http_reply" where
  "semantic_reply kind r =
     into_reply (answer_body kind) (map_err (\<lambda>e. new_error 500 (error_prefix kind @ display e)) r)"

definition routed_reply :: "err + 'j routed_query_result \<Rightarrow> 'j http_reply" where
  "routed_reply r = into_reply Routed_Body (map_err (\<lambda>e. new_error 500 (''Routed query error: '' @ display e)) r)"

datatype 'j http_task =
    Entering http_request
  | Routing string
  | Running answer_kind client
  | Replied "'j http_reply"

text \<open>The two semantic endpoints stop at their first await; the others touch the cache only to count it,
  and are one step.\<close>

definition query_task where
  "query_task s web req onward =
     (case json_body web (req_body req) of
        Inl (code, text) \<Rightarrow> Replied (code, Library_Body text)
      | Inr payload \<Rightarrow>
          (case validate_query_str (query_text payload) ''Query'' (max_query_chars s) of
             Inl (code, e) \<Rightarrow> Replied (code, Error_Body e)
           | Inr q \<Rightarrow> onward q))"

definition route_task where
  "route_task s web req st =
     (if req_path req = ''/query/semantic'' \<and> verb req = Post
        then (query_task s web req (\<lambda>q. Running Plain (Start q)), st)
      else if req_path req = ''/query'' \<and> verb req = Post
        then (query_task s web req Routing, st)
      else (case route_request s web req st of (rep, st') \<Rightarrow> (Replied rep, st')))"

fun http_step ::
  "('w, 'q, 'o, 'p, 'b, 'conn, 'tbl, 'res, 'enc, 'j) app_state \<Rightarrow> 'w web \<Rightarrow> 'j http_task \<Rightarrow> 'w served
     \<Rightarrow> 'j http_task \<times> 'w served" where
  "http_step s web (Entering req) (c, w) =
     (case admit web 128 req w of
        (Inl e, w1) \<Rightarrow> (case handle_load_shed_error e of (code, text) \<Rightarrow> (Replied (code, Shed_Body text code), (c, w1)))
      | (Inr _, w1) \<Rightarrow> route_task s web req (c, w1))"
| "http_step s web (Routing q) (c, w) =
     (case ask_model s (build_routing_prompt q) w of
        (Inl _, w1) \<Rightarrow> (Running By_Fallback (Start q), (c, w1))
      | (Inr raw_json, w1) \<Rightarrow>
          (let decision = (case parse_llm_json (route_from_str s) raw_json of
                             Inr d \<Rightarrow> d | Inl _ \<Rightarrow> \<lparr>route = ''SEMANTIC''\<rparr>)
           in if route decision = ''SQL''
              then (case execute_routed_sql s q w1 of (r, w2) \<Rightarrow> (Replied (routed_reply r), (c, w2)))
              else (Running By_Router (Start q), (c, w1))))"
| "http_step s web (Running kind (Finished r)) st = (Replied (semantic_reply kind r), st)"
| "http_step s web (Running kind pc) st =
     (case client_step s pc st of (pc', st') \<Rightarrow> (Running kind pc', st'))"
| "http_step s web (Replied rep) st = (Replied rep, st)"

fun http_reply_of :: "'j http_task \<Rightarrow> 'j http_reply option" where
  "http_reply_of (Replied rep) = Some rep"
| "http_reply_of _ = None"

fun http_left :: "'j http_task \<Rightarrow> nat" where
  "http_left (Entering _) = 10"
| "http_left (Routing _) = 9"
| "http_left (Running _ pc) = Suc (steps_left pc)"
| "http_left (Replied _) = 0"

section \<open>gRPC\<close>

datatype rpc_task = Called rpc_request | Working client | Returned rpc_reply

definition semantic_status :: "err + semantic_query_result \<Rightarrow> rpc_reply" where
  "semantic_status r =
     Semantic_Reply (case r of
        Inl e \<Rightarrow> Inl (Internal, ''Semantic pipeline error: '' @ display e)
      | Inr res \<Rightarrow> Inr (semantic_records res))"

fun rpc_step ::
  "('w, 'q, 'o, 'p, 'b, 'conn, 'tbl, 'res, 'enc, 'j) app_state \<Rightarrow> rpc_task \<Rightarrow> 'w served
     \<Rightarrow> rpc_task \<times> 'w served" where
  "rpc_step s (Called (Call_Semantic inner)) st =
     (case rpc_query_check (rpc_query inner) ''Semantic query'' (max_query_chars s) of
        Inl refusal \<Rightarrow> (Returned (Semantic_Reply (Inl refusal)), st)
      | Inr q \<Rightarrow> (Working (Start q), st))"
| "rpc_step s (Called req) st = (case query_service s req st of (rep, st') \<Rightarrow> (Returned rep, st'))"
| "rpc_step s (Working (Finished r)) st = (Returned (semantic_status r), st)"
| "rpc_step s (Working pc) st = (case client_step s pc st of (pc', st') \<Rightarrow> (Working pc', st'))"
| "rpc_step s (Returned rep) st = (Returned rep, st)"

fun rpc_reply_of :: "rpc_task \<Rightarrow> rpc_reply option" where
  "rpc_reply_of (Returned rep) = Some rep"
| "rpc_reply_of _ = None"

fun rpc_left :: "rpc_task \<Rightarrow> nat" where
  "rpc_left (Called _) = 9"
| "rpc_left (Working pc) = Suc (steps_left pc)"
| "rpc_left (Returned _) = 0"

section \<open>Tasks in general\<close>

text \<open>A machine with an answer: what is left of a task to do is a function of the state, every step does
  a part of it, and a step that is not the last shortens it.\<close>

locale answering_machine =
  fixes step :: "'task \<Rightarrow> 'st \<Rightarrow> 'task \<times> 'st"
    and reply_of :: "'task \<Rightarrow> 'rep option"
    and rest :: "'task \<Rightarrow> 'st \<Rightarrow> 'rep \<times> 'st"
    and left :: "'task \<Rightarrow> nat"
  assumes step_rest: "step t st = (t', st') \<Longrightarrow> rest t st = rest t' st'"
    and replied_rest: "reply_of t = Some rep \<Longrightarrow> rest t st = (rep, st)"
    and replied_stays: "reply_of t = Some rep \<Longrightarrow> step t st = (t, st)"
    and step_left: "reply_of t = None \<Longrightarrow> step t st = (t', st') \<Longrightarrow> left t' < left t"
begin

fun alone where
  "alone 0 t st = (t, st)"
| "alone (Suc n) t st = (case step t st of (t', st') \<Rightarrow> alone n t' st')"

lemma alone_replies:
  assumes "left t \<le> n"
  shows "\<exists>t' st' rep. alone n t st = (t', st') \<and> reply_of t' = Some rep \<and> rest t st = (rep, st')"
  using assms
proof (induction n arbitrary: t st)
  case 0
  then obtain rep where "reply_of t = Some rep"
    using step_left [of t st "fst (step t st)" "snd (step t st)"] by (cases "reply_of t") auto
  then show ?case using replied_rest by simp
next
  case (Suc n)
  obtain t1 st1 where step: "step t st = (t1, st1)" by (metis surj_pair)
  show ?case
  proof (cases "reply_of t")
    case None
    then have "left t1 \<le> n" using step_left [OF None step] Suc.prems by simp
    from Suc.IH [OF this, of st1] step_rest [OF step] step show ?thesis by simp
  next
    case (Some rep)
    have "alone m t st = (t, st)" for m
      by (induction m) (simp_all add: replied_stays [OF Some])
    then show ?thesis using Some replied_rest by metis
  qed
qed

end

text \<open>What is left of an HTTP request and of a call.\<close>

fun http_rest where
  "http_rest s web (Entering req) st = create_router s web req st"
| "http_rest s web (Routing q) st = (case run_routed_pipeline s q st of (r, st') \<Rightarrow> (routed_reply r, st'))"
| "http_rest s web (Running kind pc) st = (case rest_of s pc st of (r, st') \<Rightarrow> (semantic_reply kind r, st'))"
| "http_rest s web (Replied rep) st = (rep, st)"

fun rpc_rest where
  "rpc_rest s (Called req) st = query_service s req st"
| "rpc_rest s (Working pc) st = (case rest_of s pc st of (r, st') \<Rightarrow> (semantic_status r, st'))"
| "rpc_rest s (Returned rep) st = (rep, st)"

lemma semantic_handler_reply:
  "(case semantic_query_handler s text st of (r, st') \<Rightarrow> (into_reply Semantic_Body r, st')) =
     (case validate_query_str text ''Query'' (max_query_chars s) of
        Inl (code, e) \<Rightarrow> ((code, Error_Body e), st)
      | Inr q \<Rightarrow> (case run_semantic_pipeline s q st of (r, st') \<Rightarrow> (semantic_reply Plain r, st')))"
  by (auto simp: semantic_query_handler_def semantic_reply_def io_lift_def io_map_err_def io_try_def into_reply_def
      split: sum.split prod.split)

lemma router_handler_reply:
  "(case router_query_handler s text st of (r, st') \<Rightarrow> (into_reply Routed_Body r, st')) =
     (case validate_query_str text ''Query'' (max_query_chars s) of
        Inl (code, e) \<Rightarrow> ((code, Error_Body e), st)
      | Inr q \<Rightarrow> (case run_routed_pipeline s q st of (r, st') \<Rightarrow> (routed_reply r, st')))"
  by (auto simp: router_query_handler_def routed_reply_def io_lift_def io_map_err_def io_try_def into_reply_def
      split: sum.split prod.split)


lemma route_rest: "(case route_task s web req st of (t, st') \<Rightarrow> http_rest s web t st') = route_request s web req st"
proof -
  have semantic: "http_rest s web (query_task s web req (\<lambda>q. Running Plain (Start q))) st =
      with_json web Semantic_Body (semantic_query_handler s) req st"
    by (simp add: query_task_def with_json_def semantic_handler_reply split: sum.split prod.split)
  have routed: "http_rest s web (query_task s web req Routing) st =
      with_json web Routed_Body (router_query_handler s) req st"
    by (simp add: query_task_def with_json_def router_handler_reply split: sum.split prod.split)
  show ?thesis
    using semantic routed by (auto simp: route_task_def route_request_def split: prod.split)
qed

text \<open>A task in the middle of the pipeline either has its result or moves its client on.\<close>

lemma http_runningE:
  assumes "http_step s web (Running kind pc) st = (t', st')"
  obtains r where "pc = Finished r" "t' = Replied (semantic_reply kind r)" "st' = st"
  | pc' where "\<nexists>r. pc = Finished r" "client_step s pc st = (pc', st')" "t' = Running kind pc'"
  using assms by (cases pc) (auto split: prod.splits)

lemma rpc_workingE:
  assumes "rpc_step s (Working pc) st = (t', st')"
  obtains r where "pc = Finished r" "t' = Returned (semantic_status r)" "st' = st"
  | pc' where "\<nexists>r. pc = Finished r" "client_step s pc st = (pc', st')" "t' = Working pc'"
  using assms by (cases pc) (auto split: prod.splits)

text \<open>The second await of the routed pipeline: the model's decision, and the branch it leads to.\<close>

lemma onward_reply:
  assumes "answer_body kind = Routed_Body \<circ> g" "error_prefix kind = ''Routed query error: ''"
  shows "(case io_try (run_semantic_pipeline s q) (\<lambda>res. io_ok (g res)) st of (r, st') \<Rightarrow> (routed_reply r, st')) =
    (case run_semantic_pipeline s q st of (r, st') \<Rightarrow> (semantic_reply kind r, st'))"
  using assms by (auto simp: routed_reply_def semantic_reply_def io_try_def io_ok_def into_reply_def
      split: prod.split sum.split)

lemma routing_rest:
  assumes "http_step s web (Routing q) (c, w) = (t', st')"
  shows "http_rest s web (Routing q) (c, w) = http_rest s web t' st'"
proof -
  have router: "answer_body By_Router = Routed_Body \<circ> Routed_Semantic"
    "error_prefix By_Router = ''Routed query error: ''"
    and fallback: "answer_body By_Fallback = Routed_Body \<circ> Semantic_Fallback"
    "error_prefix By_Fallback = ''Routed query error: ''"
    by (simp_all add: fun_eq_iff)
  obtain r w1 where ask: "ask_model s (build_routing_prompt q) w = (r, w1)" by (metis surj_pair)
  show ?thesis
  proof (cases r)
    case (Inl e)
    with assms ask show ?thesis by (auto simp: run_routed_pipeline_def onward_reply [OF fallback])
  next
    case (Inr raw)
    with assms ask show ?thesis
      by (auto simp: run_routed_pipeline_def Let_def outside_def onward_reply [OF router]
          split: if_splits prod.splits)
  qed
qed

lemma http_step_rest:
  assumes "http_step s web t st = (t', st')"
  shows "http_rest s web t st = http_rest s web t' st'"
proof (cases t)
  case (Entering req)
  obtain c w where st: "st = (c, w)" by fastforce
  show ?thesis
  proof (cases "fst (admit web 128 req w)")
    case (Inl e)
    then show ?thesis using assms Entering st
      by (auto simp: create_router_def split: prod.splits sum.splits)
  next
    case (Inr u)
    then obtain w1 where admit: "admit web 128 req w = (Inr u, w1)" by (cases "admit web 128 req w") auto
    have "http_rest s web t' st' = route_request s web req (c, w1)"
      using route_rest [of s web req "(c, w1)"] assms Entering st admit by simp
    then show ?thesis using Entering st admit by (simp add: create_router_def)
  qed
next
  case (Routing q)
  then show ?thesis using assms routing_rest [of s web q "fst st" "snd st"] by simp
next
  case (Running kind pc)
  then show ?thesis
    using assms by (auto elim!: http_runningE dest!: step_rest)
qed (use assms in auto)

lemma http_step_left:
  assumes "http_reply_of t = None" "http_step s web t st = (t', st')"
  shows "http_left t' < http_left t"
proof (cases t)
  case (Entering req)
  with assms(2) show ?thesis
    by (cases st) (auto simp: route_task_def query_task_def split: prod.splits sum.splits if_splits)
next
  case (Routing q)
  with assms(2) show ?thesis
    by (cases st) (auto simp: Let_def split: prod.splits sum.splits if_splits)
next
  case (Running kind pc)
  with assms(2) show ?thesis by (auto elim!: http_runningE dest: step_progress)
qed (use assms in auto)

lemma rpc_step_rest:
  assumes "rpc_step s t st = (t', st')"
  shows "rpc_rest s t st = rpc_rest s t' st'"
proof (cases t)
  case (Called req)
  show ?thesis
  proof (cases req)
    case (Call_Semantic inner)
    have "(case execute_semantic s inner st of (r, st') \<Rightarrow> (Semantic_Reply r, st')) =
        (case rpc_query_check (rpc_query inner) ''Semantic query'' (max_query_chars s) of
           Inl refusal \<Rightarrow> (Semantic_Reply (Inl refusal), st)
         | Inr q \<Rightarrow> (case run_semantic_pipeline s q st of (r, st') \<Rightarrow> (semantic_status r, st')))"
      by (auto simp: execute_semantic_def semantic_status_def io_lift_def io_map_err_def io_try_def io_ok_def
          result_simps split: sum.split prod.split)
    with assms Called Call_Semantic show ?thesis by (auto simp: query_service_def split: sum.splits)
  qed (use assms Called in \<open>auto split: prod.splits\<close>)
next
  case (Working pc)
  then show ?thesis
    using assms by (auto elim!: rpc_workingE dest!: step_rest)
qed (use assms in auto)

lemma rpc_step_left:
  assumes "rpc_reply_of t = None" "rpc_step s t st = (t', st')"
  shows "rpc_left t' < rpc_left t"
proof (cases t)
  case (Called req)
  with assms(2) show ?thesis by (cases req) (auto split: prod.splits sum.splits)
next
  case (Working pc)
  with assms(2) show ?thesis by (auto elim!: rpc_workingE dest: step_progress)
qed (use assms in auto)

interpretation http_machine: answering_machine "http_step s web" http_reply_of "http_rest s web" http_left
  for s :: "('w, 'q, 'o, 'p, 'b, 'conn, 'tbl, 'res, 'enc, 'j) app_state" and web
proof
  fix t st t' st'
  assume "http_step s web t st = (t', st')"
  then show "http_rest s web t st = http_rest s web t' st'" by (rule http_step_rest)
next
  fix t st t' st'
  assume "http_reply_of t = None" "http_step s web t st = (t', st')"
  then show "http_left t' < http_left t" by (rule http_step_left)
next
  fix t :: "'j http_task" and st rep
  assume r: "http_reply_of t = Some rep"
  show "http_rest s web t st = (rep, st)" using r by (cases t) auto
  show "http_step s web t st = (t, st)" using r by (cases t) auto
qed

interpretation rpc_machine: answering_machine "rpc_step s" rpc_reply_of "rpc_rest s" rpc_left for s
proof
  fix t st t' st'
  assume "rpc_step s t st = (t', st')"
  then show "rpc_rest s t st = rpc_rest s t' st'" by (rule rpc_step_rest)
next
  fix t st t' st'
  assume "rpc_reply_of t = None" "rpc_step s t st = (t', st')"
  then show "rpc_left t' < rpc_left t" by (rule rpc_step_left)
next
  fix t st rep
  assume r: "rpc_reply_of t = Some rep"
  show "rpc_rest s t st = (rep, st)" using r by (cases t) auto
  show "rpc_step s t st = (t, st)" using r by (cases t) auto
qed


section \<open>What tasks keep\<close>

text \<open>What the hypotheses on the crates give: with them the cache is good and tasks carry grounded
  answers; the cache is a reachable one in any case.\<close>

definition sound_env where
  "sound_env s \<longleftrightarrow> codec_ok s \<and> order_sound (chunk_order s)"

definition task_cache where
  "task_cache s cap thr c \<longleftrightarrow> cache_reachable cap thr c \<and> (sound_env s \<longrightarrow> good_cache s c)"

definition safe_reply where
  "safe_reply s rep \<longleftrightarrow> (\<forall>res. body_answer (snd rep) = Some res \<longrightarrow> safe_answer s res)"

fun http_task_ok where
  "http_task_ok s (Running kind pc) = (sound_env s \<longrightarrow> client_ok s pc)"
| "http_task_ok s (Replied rep) = (sound_env s \<longrightarrow> safe_reply s rep)"
| "http_task_ok s _ = True"

fun safe_rpc where
  "safe_rpc s (Semantic_Reply (Inr resp)) = (\<exists>res. resp = semantic_records res \<and> safe_answer s res)"
| "safe_rpc s _ = True"

fun rpc_task_ok where
  "rpc_task_ok s (Working pc) = (sound_env s \<longrightarrow> client_ok s pc)"
| "rpc_task_ok s (Returned rep) = (sound_env s \<longrightarrow> safe_rpc s rep)"
| "rpc_task_ok s _ = True"

lemma task_cache_new: "task_cache s cap thr (cache_new cap thr)"
  by (simp add: task_cache_def cache_reachable.new new_cache_good)

lemma client_keeps:
  assumes "task_cache s cap thr c" "sound_env s \<longrightarrow> client_ok s pc" "client_step s pc (c, w) = (pc', (c', w'))"
  shows "task_cache s cap thr c' \<and> (sound_env s \<longrightarrow> client_ok s pc')"
proof -
  have "cache_reachable cap thr c'"
    using assms(1) step_cache [OF assms(3)] by (auto simp: task_cache_def intro: cache_reachable.step)
  moreover have "good_cache s c' \<and> client_ok s pc'" if "sound_env s"
    using that assms(1,2) step_ok [OF _ _ _ _ assms(3)] by (simp add: task_cache_def sound_env_def)
  ultimately show ?thesis by (simp add: task_cache_def)
qed

lemma finished_safe: "client_ok s (Finished r) \<Longrightarrow> safe_reply s (semantic_reply kind r)"
  by (cases r; cases kind)
    (auto simp: semantic_reply_def into_reply_def new_error_def safe_reply_def safe_answer_def)

lemma finished_status_safe: "client_ok s (Finished r) \<Longrightarrow> safe_rpc s (semantic_status r)"
  by (cases r) (auto simp: semantic_status_def safe_answer_def)

lemma query_task_ok:
  assumes "\<And>q. http_task_ok s (onward q)"
  shows "http_task_ok s (query_task s web req onward)"
  using assms by (auto simp: query_task_def safe_reply_def split: sum.split)

lemma whole_route:
  assumes "route_request s web req (c, w) = (rep, (c', w'))"
    and "req_path req \<noteq> ''/query/semantic'' \<or> verb req \<noteq> Post" "req_path req \<noteq> ''/query'' \<or> verb req \<noteq> Post"
  shows "c' = c \<and> safe_reply s rep"
  using assms
  by (auto simp: route_request_def with_json_def into_reply_def safe_reply_def
      split: if_splits prod.splits sum.splits dest: health_frame sql_handler_frame)

lemma route_task_ok:
  assumes "route_task s web req (c, w) = (t, (c', w'))"
  shows "c' = c \<and> http_task_ok s t"
proof -
  have "http_task_ok s (query_task s web req (\<lambda>q. Running Plain (Start q)))" "http_task_ok s (query_task s web req Routing)"
    by (rule query_task_ok, simp)+
  moreover obtain rep c1 w1 where whole: "route_request s web req (c, w) = (rep, (c1, w1))" by (metis surj_pair)
  ultimately show ?thesis using assms whole_route [OF whole] by (auto simp: route_task_def split: if_splits)
qed

lemma http_step_ok:
  assumes "task_cache s cap thr c" "http_task_ok s t" "http_step s web t (c, w) = (t', (c', w'))"
  shows "task_cache s cap thr c' \<and> http_task_ok s t'"
proof (cases t)
  case (Entering req)
  obtain r w1 where admit: "admit web 128 req w = (r, w1)" by (metis surj_pair)
  show ?thesis
  proof (cases r)
    case (Inl e)
    obtain code m where "handle_load_shed_error e = (code, m)" by (metis surj_pair)
    with Entering admit Inl assms(3) have "t' = Replied (code, Shed_Body m code)" "c' = c" by simp_all
    with assms(1) show ?thesis by (simp add: safe_reply_def)
  next
    case (Inr u)
    with Entering admit assms(3) have "route_task s web req (c, w1) = (t', (c', w'))" by simp
    from route_task_ok [OF this] assms(1) show ?thesis by simp
  qed
next
  case (Routing q)
  have sql: "safe_reply s (routed_reply r)" if "execute_routed_sql s q w1 = (r, w2)" for r w1 w2
    using that by (auto simp: execute_routed_sql_def routed_reply_def into_reply_def new_error_def safe_reply_def
        result_simps io_ok_def split: sum.splits)
  have "c' = c \<and> http_task_ok s t'"
    using assms(3) unfolding Routing by (auto simp: Let_def split: prod.splits sum.splits if_splits dest: sql)
  with assms(1) show ?thesis by simp
next
  case (Running kind pc)
  from assms(3) show ?thesis unfolding Running
  proof (cases rule: http_runningE)
    case 1
    with assms(1,2) Running show ?thesis by (auto intro: finished_safe)
  next
    case 2
    with client_keeps [OF assms(1) _ 2(2)] assms(2) Running show ?thesis by simp
  qed
qed (use assms in auto)

lemma rpc_step_ok:
  assumes "task_cache s cap thr c" "rpc_task_ok s t" "rpc_step s t (c, w) = (t', (c', w'))"
  shows "task_cache s cap thr c' \<and> rpc_task_ok s t'"
proof (cases t)
  case (Called req)
  with assms(1,3) show ?thesis
    by (cases req) (auto simp: query_service_def split: prod.splits sum.splits dest: health_frame execute_sql_frame)
next
  case (Working pc)
  from assms(3) show ?thesis unfolding Working
  proof (cases rule: rpc_workingE)
    case 1
    with assms(1,2) Working show ?thesis by (auto intro: finished_status_safe)
  next
    case 2
    with client_keeps [OF assms(1) _ 2(2)] assms(2) Working show ?thesis by simp
  qed
qed (use assms in auto)

lemma http_alone:
  "\<exists>rep st'. answering_machine.alone (http_step s web) 10 (Entering req) st = (Replied rep, st') \<and>
     create_router s web req st = (rep, st')"
proof -
  obtain t st' rep where run: "answering_machine.alone (http_step s web) 10 (Entering req) st = (t, st')"
      "http_reply_of t = Some rep" "http_rest s web (Entering req) st = (rep, st')"
    using http_machine.alone_replies [of "Entering req" 10 s web st] by auto
  then have "t = Replied rep" by (cases t) simp_all
  with run show ?thesis by simp
qed

lemma rpc_alone:
  "\<exists>rep st'. answering_machine.alone (rpc_step s) 9 (Called call) st = (Returned rep, st') \<and>
     query_service s call st = (rep, st')"
proof -
  obtain t st' rep where run: "answering_machine.alone (rpc_step s) 9 (Called call) st = (t, st')"
      "rpc_reply_of t = Some rep" "rpc_rest s (Called call) st = (rep, st')"
    using rpc_machine.alone_replies [of "Called call" 9 s st] by auto
  then have "t = Returned rep" by (cases t) simp_all
  with run show ?thesis by simp
qed

section \<open>Properties\<close>



end
