(* ===== verification/Sockets.thy ===== *)
theory Sockets
  imports Types
begin

text \<open>
  \<open>src/gateway/http/socket.rs\<close>: the listener of the HTTP door. The kernel and tokio are a parameter, a
  record of the calls the function makes; every early return drops the socket, which closes it.
\<close>

section \<open>The kernel as the code calls it\<close>

datatype socket_addr = V4 "32 word" "16 word" | V6 "128 word" "16 word"

datatype domain = Ipv4 | Ipv6

datatype socket_option =
    Reuse_Address bool
  | Reuse_Port bool
  | Nodelay bool
  | Recv_Buffer_Size nat
  | Send_Buffer_Size nat
  | Nonblocking bool

text \<open>\<open>socket_new\<close> makes a TCP stream socket; \<open>from_std\<close> hands the socket to tokio.\<close>

record ('w, 'sock, 'lst) kernel =
  socket_new :: "domain \<Rightarrow> ('w, err, 'sock) io"
  set_option :: "'sock \<Rightarrow> socket_option \<Rightarrow> ('w, err, unit) io"
  bind_socket :: "'sock \<Rightarrow> socket_addr \<Rightarrow> ('w, err, unit) io"
  listen_socket :: "'sock \<Rightarrow> nat \<Rightarrow> ('w, err, unit) io"
  from_std :: "'sock \<Rightarrow> ('w, err, 'lst) io"
  close_socket :: "'sock \<Rightarrow> 'w \<Rightarrow> 'w"

section \<open>The listener\<close>

definition domain_of :: "socket_addr \<Rightarrow> domain" where
  "domain_of addr = (case addr of V4 _ _ \<Rightarrow> Ipv4 | V6 _ _ \<Rightarrow> Ipv6)"

text \<open>A value dropped when the rest fails.\<close>

definition dropping :: "('w \<Rightarrow> 'w) \<Rightarrow> ('w, err, 'a) io \<Rightarrow> ('w, err, 'a) io" where
  "dropping drop_it m w = (case m w of (Inl e, w1) \<Rightarrow> (Inl e, drop_it w1) | (Inr x, w1) \<Rightarrow> (Inr x, w1))"

definition create_tuned_tcp_listener ::
  "('w, 'sock, 'lst) kernel \<Rightarrow> socket_addr \<Rightarrow> ('w, err, 'lst) io" where
  "create_tuned_tcp_listener k addr =
     io_try (socket_new k (domain_of addr)) (\<lambda>socket. dropping (close_socket k socket)
       (io_try (set_option k socket (Reuse_Address True)) (\<lambda>_.
        io_try (set_option k socket (Reuse_Port True)) (\<lambda>_.
        io_try (set_option k socket (Nodelay True)) (\<lambda>_.
        io_try (set_option k socket (Recv_Buffer_Size (128 * 1024))) (\<lambda>_.
        io_try (set_option k socket (Send_Buffer_Size (128 * 1024))) (\<lambda>_.
        io_try (set_option k socket (Nonblocking True)) (\<lambda>_.
        io_try (bind_socket k socket addr) (\<lambda>_.
        io_try (listen_socket k socket 1024) (\<lambda>_.
        from_std k socket))))))))))"

section \<open>What the kernel promises\<close>

text \<open>The open sockets with what has been done to them; a call that fails changes nothing.\<close>

record socket_state =
  family :: domain
  options :: "socket_option list"
  bound :: "socket_addr option"
  backlog :: "nat option"

definition fresh_socket :: "domain \<Rightarrow> socket_state" where
  "fresh_socket d = \<lparr>family = d, options = [], bound = None, backlog = None\<rparr>"

definition edits :: "('w \<Rightarrow> 'sock \<rightharpoonup> socket_state) \<Rightarrow> 'sock \<Rightarrow> (socket_state \<Rightarrow> socket_state) \<Rightarrow>
    ('w, err, unit) io \<Rightarrow> bool" where
  "edits sockets s f m \<longleftrightarrow> (\<forall>w r w'. m w = (r, w') \<longrightarrow>
     sockets w' = (if is_ok r then (sockets w)(s := map_option f (sockets w s)) else sockets w))"

definition kernel_law :: "('w, 'sock, 'lst) kernel \<Rightarrow> ('w \<Rightarrow> 'sock \<rightharpoonup> socket_state) \<Rightarrow> bool" where
  "kernel_law k sockets \<longleftrightarrow>
     (\<forall>d w r w'. socket_new k d w = (r, w') \<longrightarrow>
        (case r of Inl _ \<Rightarrow> sockets w' = sockets w
         | Inr s \<Rightarrow> sockets w s = None \<and> sockets w' = (sockets w)(s \<mapsto> fresh_socket d))) \<and>
     (\<forall>s x. edits sockets s (\<lambda>st. st\<lparr>options := options st @ [x]\<rparr>) (set_option k s x)) \<and>
     (\<forall>s a. edits sockets s (\<lambda>st. st\<lparr>bound := Some a\<rparr>) (bind_socket k s a)) \<and>
     (\<forall>s n. edits sockets s (\<lambda>st. st\<lparr>backlog := Some n\<rparr>) (listen_socket k s n)) \<and>
     (\<forall>s w r w'. from_std k s w = (r, w') \<longrightarrow> sockets w' = sockets w) \<and>
     (\<forall>s w. sockets (close_socket k s w) = (sockets w)(s := None))"

definition tuned :: "socket_addr \<Rightarrow> socket_state" where
  "tuned addr = \<lparr>family = domain_of addr,
     options = [Reuse_Address True, Reuse_Port True, Nodelay True, Recv_Buffer_Size 131072,
       Send_Buffer_Size 131072, Nonblocking True],
     bound = Some addr, backlog = Some 1024\<rparr>"

section \<open>Facts\<close>

text \<open>The state of one socket under construction over a table of others.\<close>

definition building :: "('sock \<rightharpoonup> socket_state) \<Rightarrow> 'sock \<Rightarrow> ('w \<Rightarrow> 'sock \<rightharpoonup> socket_state) \<Rightarrow> ('w, err, 'a) io \<Rightarrow>
    socket_state \<Rightarrow> socket_state \<Rightarrow> bool" where
  "building tab s sockets m before after \<longleftrightarrow> (\<forall>w r w'. m w = (r, w') \<longrightarrow> sockets w = tab(s \<mapsto> before) \<longrightarrow>
     (if is_ok r then sockets w' = tab(s \<mapsto> after) else \<exists>st. sockets w' = tab(s \<mapsto> st)))"

lemma building_edit:
  "edits sockets s f m \<Longrightarrow> building tab s sockets m before (f before)"
  by (auto simp: building_def edits_def)

lemma building_try:
  assumes "building tab s sockets m a b" "building tab s sockets n b c"
  shows "building tab s sockets (io_try m (\<lambda>_. n)) a c"
  unfolding building_def
proof (intro allI impI)
  fix w r w'
  assume run: "io_try m (\<lambda>_. n) w = (r, w')" and st: "sockets w = tab(s \<mapsto> a)"
  from run show "if is_ok r then sockets w' = tab(s \<mapsto> c) else \<exists>st. sockets w' = tab(s \<mapsto> st)"
  proof (cases rule: io_try_cases)
    case (err e)
    with assms(1) st show ?thesis unfolding building_def by fastforce
  next
    case (ok x w1)
    with assms(1) st have "sockets w1 = tab(s \<mapsto> b)" unfolding building_def by fastforce
    with assms(2) ok(2) show ?thesis unfolding building_def by blast
  qed
qed

lemma law_steps:
  assumes "kernel_law k sockets"
  shows "building tab s sockets (set_option k s x) st (st\<lparr>options := options st @ [x]\<rparr>)"
    and "building tab s sockets (bind_socket k s a) st (st\<lparr>bound := Some a\<rparr>)"
    and "building tab s sockets (listen_socket k s n) st (st\<lparr>backlog := Some n\<rparr>)"
    and "building tab s sockets (from_std k s) st st"
proof -
  show "building tab s sockets (from_std k s) st st"
    using assms unfolding kernel_law_def building_def by metis
qed (use assms in \<open>auto simp: kernel_law_def intro!: building_edit\<close>)

lemma law_new:
  assumes "kernel_law k sockets" "socket_new k d w = (r, w')"
  shows "case r of Inl _ \<Rightarrow> sockets w' = sockets w
    | Inr s \<Rightarrow> sockets w s = None \<and> sockets w' = (sockets w)(s \<mapsto> fresh_socket d)"
  using assms unfolding kernel_law_def by blast

lemma law_close: "kernel_law k sockets \<Longrightarrow> sockets (close_socket k s w) = (sockets w)(s := None)"
  by (simp add: kernel_law_def)

section \<open>A kernel in memory\<close>

text \<open>A table of sockets; an address can be bound again only by a socket that reuses the port.\<close>

type_synonym socket_table = "(nat \<times> socket_state) list"

definition edit_socket :: "nat \<Rightarrow> (socket_state \<Rightarrow> socket_state) \<Rightarrow> socket_table \<Rightarrow> socket_table" where
  "edit_socket s f w = map (\<lambda>(i, st). if i = s then (i, f st) else (i, st)) w"

definition fresh_id :: "socket_table \<Rightarrow> nat" where
  "fresh_id w = Suc (foldr max (map fst w) 0)"

definition demo_kernel :: "(socket_table, nat, nat) kernel" where
  "demo_kernel =
     \<lparr>socket_new = (\<lambda>d w. (Inr (fresh_id w), (fresh_id w, fresh_socket d) # w)),
      set_option = (\<lambda>s x w. (Inr (), edit_socket s (\<lambda>st. st\<lparr>options := options st @ [x]\<rparr>) w)),
      bind_socket = (\<lambda>s a w.
        if list_ex (\<lambda>(i, st). bound st = Some a) w \<and>
           list_ex (\<lambda>(i, st). i = s \<and> Reuse_Port True \<notin> set (options st)) w
        then (Inl (External ''Address already in use''), w)
        else (Inr (), edit_socket s (\<lambda>st. st\<lparr>bound := Some a\<rparr>) w)),
      listen_socket = (\<lambda>s n w. (Inr (), edit_socket s (\<lambda>st. st\<lparr>backlog := Some n\<rparr>) w)),
      from_std = (\<lambda>s w. if length w \<le> 2 then (Inr s, w) else (Inl (External ''Too many open files''), w)),
      close_socket = (\<lambda>s w. filter (\<lambda>(i, st). i \<noteq> s) w)\<rparr>"

lemma map_of_edit [simp]: "map_of (edit_socket s f w) = (map_of w)(s := map_option f (map_of w s))"
  by (induction w) (auto simp: edit_socket_def fun_eq_iff)

lemma fresh_id_bound: "i \<in> fst ` set w \<Longrightarrow> i < fresh_id w"
  by (induction w) (force simp: fresh_id_def less_Suc_eq_le max_def)+

lemma map_of_fresh: "map_of w (fresh_id w) = None"
  using fresh_id_bound [of "fresh_id w" w] by (auto simp: map_of_eq_None_iff)

lemma map_of_closed: "map_of (filter (\<lambda>(i, st). i \<noteq> s) w) = (map_of w)(s := None)"
  by (induction w) (auto simp: fun_eq_iff)

lemma demo_kernel_law: "kernel_law demo_kernel map_of"
  unfolding kernel_law_def edits_def
  by (auto simp: demo_kernel_def map_of_fresh map_of_closed split: if_splits)

section \<open>Properties\<close>


definition demo_listening :: socket_table where
  "demo_listening = snd (create_tuned_tcp_listener demo_kernel (V4 0 8080) [])"

lemmas demo_make = create_tuned_tcp_listener_def demo_kernel_def io_try_def dropping_def edit_socket_def
  fresh_id_def fresh_socket_def tuned_def domain_of_def

lemma demo_listener:
  "create_tuned_tcp_listener demo_kernel (V4 0 8080) demo_listening = (Inr 2, (2, tuned (V4 0 8080)) # demo_listening)"
  "demo_listening = [(1, tuned (V4 0 8080))]"
proof -
  show eq: "demo_listening = [(1, tuned (V4 0 8080))]"
    by (simp add: demo_listening_def demo_make)
  show "create_tuned_tcp_listener demo_kernel (V4 0 8080) demo_listening =
      (Inr 2, (2, tuned (V4 0 8080)) # demo_listening)"
    by (simp add: eq demo_make)
qed


end
