(* ===== verification/Lifecycle.thy ===== *)
theory Lifecycle
  imports Tasks Sockets
begin

text \<open>
  The servers' lives: \<open>shutdown_signal\<close> and \<open>start_server\<close> of \<open>src/gateway/http/mod.rs\<close>,
  \<open>start_dual_server\<close> of \<open>src/gateway/mod.rs\<close>, as step relations. The asynchronous runtime runs the
  spawned task, the two servers and the tasks of all their requests in any order, one step at a time;
  any client may hang up. What axum and tonic do is what they document: a server binds, accepts until
  its shutdown future completes, then answers what it has accepted and returns; it may fail on its own.
\<close>

section \<open>The shutdown signal\<close>

datatype signal_source = Ctrl_C | Terminate

text \<open>The two branches of \<open>select!\<close>, each with whether its handler is installed. A branch that cannot
  install its handler panics in \<open>expect\<close>; the first one to complete decides.\<close>

datatype shutdown = Pending bool bool | Received signal_source | Unwound string

definition shutdown_signal :: shutdown where
  "shutdown_signal = Pending False False"

inductive shutdown_step :: "shutdown \<Rightarrow> shutdown \<Rightarrow> bool" where
  install_ctrl_c: "shutdown_step (Pending False t) (Pending True t)"
| ctrl_c_fails: "shutdown_step (Pending False t) (Unwound ''failed to install Ctrl+C handler'')"
| install_terminate: "shutdown_step (Pending c False) (Pending c True)"
| terminate_fails: "shutdown_step (Pending c False) (Unwound ''failed to install signal handler'')"
| ctrl_c: "shutdown_step (Pending True t) (Received Ctrl_C)"
| terminate: "shutdown_step (Pending c True) (Received Terminate)"

inductive_cases shutdown_stepE: "shutdown_step t t'"

fun completed :: "shutdown \<Rightarrow> bool" where
  "completed (Pending _ _) = False"
| "completed _ = True"

section \<open>One door\<close>

text \<open>What a server is given: the task of a request, its steps, and its reply when it has one.\<close>

record ('req, 'task, 'rep, 'w) service =
  open_task :: "'req \<Rightarrow> 'task"
  run_task :: "'task \<Rightarrow> 'w served \<Rightarrow> 'task \<times> 'w served"
  task_reply :: "'task \<Rightarrow> 'rep option"

definition http_service where
  "http_service s web = \<lparr>open_task = Entering, run_task = http_step s web, task_reply = http_reply_of\<rparr>"

definition grpc_service where
  "grpc_service s = \<lparr>open_task = Called, run_task = rpc_step s, task_reply = rpc_reply_of\<rparr>"

datatype phase = Booting | Serving | Draining | Closed | Failed err | Dropped

text \<open>A server with the requests under way; \<open>accepted\<close>, \<open>answered\<close> and \<open>hung_up\<close> are its history.\<close>

record ('req, 'task, 'rep) door =
  phase :: phase
  in_flight :: "('req \<times> 'task) list"
  accepted :: "'req list"
  answered :: "('req \<times> 'rep) list"
  hung_up :: "'req list"

definition new_door :: "('req, 'task, 'rep) door" where
  "new_door = \<lparr>phase = Booting, in_flight = [], accepted = [], answered = [], hung_up = []\<rparr>"

definition up :: "('req, 'task, 'rep) door \<Rightarrow> bool" where
  "up d \<longleftrightarrow> phase d = Serving \<or> phase d = Draining"

text \<open>\<open>boot\<close> makes the listener, \<open>fired\<close> is whether the shutdown future is ready.\<close>

inductive door_step ::
  "('w, err, unit) io \<Rightarrow> ('req, 'task, 'rep, 'w) service \<Rightarrow> bool \<Rightarrow>
    ('req, 'task, 'rep) door \<times> 'w served \<Rightarrow> ('req, 'task, 'rep) door \<times> 'w served \<Rightarrow> bool"
  for boot svc fired where
  bind: "phase d = Booting \<Longrightarrow> boot w = (Inr (), w') \<Longrightarrow>
    door_step boot svc fired (d, (c, w)) (d\<lparr>phase := Serving\<rparr>, (c, w'))"
| bind_fails: "phase d = Booting \<Longrightarrow> boot w = (Inl e, w') \<Longrightarrow>
    door_step boot svc fired (d, (c, w)) (d\<lparr>phase := Failed e\<rparr>, (c, w'))"
| accept: "phase d = Serving \<Longrightarrow>
    door_step boot svc fired (d, st)
      (d\<lparr>in_flight := in_flight d @ [(req, open_task svc req)], accepted := accepted d @ [req]\<rparr>, st)"
| progress: "up d \<Longrightarrow> in_flight d = xs @ (req, t) # ys \<Longrightarrow> task_reply svc t = None \<Longrightarrow>
    run_task svc t st = (t', st') \<Longrightarrow>
    door_step boot svc fired (d, st) (d\<lparr>in_flight := xs @ (req, t') # ys\<rparr>, st')"
| answer: "up d \<Longrightarrow> in_flight d = xs @ (req, t) # ys \<Longrightarrow> task_reply svc t = Some rep \<Longrightarrow>
    door_step boot svc fired (d, st)
      (d\<lparr>in_flight := xs @ ys, answered := answered d @ [(req, rep)]\<rparr>, st)"
| hang_up: "up d \<Longrightarrow> in_flight d = xs @ (req, t) # ys \<Longrightarrow>
    door_step boot svc fired (d, st)
      (d\<lparr>in_flight := xs @ ys, hung_up := hung_up d @ [req]\<rparr>, st)"
| drain: "phase d = Serving \<Longrightarrow> fired \<Longrightarrow> door_step boot svc fired (d, st) (d\<lparr>phase := Draining\<rparr>, st)"
| close: "phase d = Draining \<Longrightarrow> in_flight d = [] \<Longrightarrow>
    door_step boot svc fired (d, st) (d\<lparr>phase := Closed\<rparr>, st)"
| crash: "up d \<Longrightarrow> door_step boot svc fired (d, st) (d\<lparr>phase := Failed e\<rparr>, st)"

inductive_cases door_stepE: "door_step boot svc fired (d, st) (d', st')"

section \<open>\<open>start_server\<close>\<close>

record ('req, 'task, 'rep, 'w) single =
  signal :: shutdown
  only_door :: "('req, 'task, 'rep) door"
  single_state :: "'w served"
  single_outcome :: "unit result option"

definition listen_on :: "('w, 'sock, 'lst) kernel \<Rightarrow> socket_addr \<Rightarrow> ('w, err, unit) io" where
  "listen_on k addr = io_try (create_tuned_tcp_listener k addr) (\<lambda>_. io_ok ())"

definition start_server :: "'w served \<Rightarrow> (http_request, 'j http_task, 'j http_reply, 'w) single" where
  "start_server st = \<lparr>signal = shutdown_signal, only_door = new_door, single_state = st, single_outcome = None\<rparr>"

text \<open>The shutdown future is the signal itself; a panic in it ends it as well.\<close>

inductive single_step for k addr s web where
  signal: "single_outcome d = None \<Longrightarrow> shutdown_step (signal d) t \<Longrightarrow>
    single_step k addr s web d (d\<lparr>signal := t\<rparr>)"
| door: "single_outcome d = None \<Longrightarrow>
    door_step (listen_on k addr) (http_service s web) (completed (signal d)) (only_door d, single_state d) (h, st) \<Longrightarrow>
    single_step k addr s web d (d\<lparr>only_door := h, single_state := st\<rparr>)"
| outside: "single_outcome d = None \<Longrightarrow> single_state d = (c, w) \<Longrightarrow>
    single_step k addr s web d (d\<lparr>single_state := (c, w')\<rparr>)"
| return_ok: "single_outcome d = None \<Longrightarrow> phase (only_door d) = Closed \<Longrightarrow>
    single_step k addr s web d (d\<lparr>single_outcome := Some (Inr ())\<rparr>)"
| return_err: "single_outcome d = None \<Longrightarrow> phase (only_door d) = Failed e \<Longrightarrow>
    single_step k addr s web d (d\<lparr>single_outcome := Some (Inl e)\<rparr>)"

section \<open>\<open>start_dual_server\<close>\<close>

text \<open>The watch channel: \<open>changed\<close> is ready once a value was sent or the sender is gone.\<close>

record watch_channel =
  value_sent :: bool
  sender_dropped :: bool

definition changed :: "watch_channel \<Rightarrow> bool" where
  "changed rx \<longleftrightarrow> value_sent rx \<or> sender_dropped rx"

datatype signal_task = Awaiting shutdown | Ended

record ('hreq, 'htask, 'hrep, 'rreq, 'rtask, 'rrep, 'w) dual =
  task :: signal_task
  channel :: watch_channel
  http_door :: "('hreq, 'htask, 'hrep) door"
  grpc_door :: "('rreq, 'rtask, 'rrep) door"
  shared :: "'w served"
  outcome :: "unit result option"

definition start_dual_server ::
  "'w served \<Rightarrow> (http_request, 'j http_task, 'j http_reply, rpc_request, rpc_task, rpc_reply, 'w) dual" where
  "start_dual_server st =
     \<lparr>task = Awaiting shutdown_signal, channel = \<lparr>value_sent = False, sender_dropped = False\<rparr>,
      http_door = new_door, grpc_door = new_door, shared = st, outcome = None\<rparr>"

text \<open>\<open>try_join!\<close> returns the first error and drops the other server where it stands.\<close>

definition drop_door :: "('req, 'task, 'rep) door \<Rightarrow> ('req, 'task, 'rep) door" where
  "drop_door d = (if phase d = Closed then d else d\<lparr>phase := Dropped\<rparr>)"

inductive dual_step for k addr tonic s web where
  signal: "outcome d = None \<Longrightarrow> task d = Awaiting t \<Longrightarrow> shutdown_step t t' \<Longrightarrow>
    dual_step k addr tonic s web d (d\<lparr>task := Awaiting t'\<rparr>)"
| send: "outcome d = None \<Longrightarrow> task d = Awaiting (Received src) \<Longrightarrow>
    dual_step k addr tonic s web d
      (d\<lparr>task := Ended, channel := \<lparr>value_sent = True, sender_dropped = True\<rparr>\<rparr>)"
| unwind: "outcome d = None \<Longrightarrow> task d = Awaiting (Unwound m) \<Longrightarrow>
    dual_step k addr tonic s web d (d\<lparr>task := Ended, channel := (channel d)\<lparr>sender_dropped := True\<rparr>\<rparr>)"
| http: "outcome d = None \<Longrightarrow>
    door_step (listen_on k addr) (http_service s web) (changed (channel d)) (http_door d, shared d) (h, st) \<Longrightarrow>
    dual_step k addr tonic s web d (d\<lparr>http_door := h, shared := st\<rparr>)"
| grpc: "outcome d = None \<Longrightarrow>
    door_step tonic (grpc_service s) (changed (channel d)) (grpc_door d, shared d) (g, st) \<Longrightarrow>
    dual_step k addr tonic s web d (d\<lparr>grpc_door := g, shared := st\<rparr>)"
| outside: "outcome d = None \<Longrightarrow> shared d = (c, w) \<Longrightarrow>
    dual_step k addr tonic s web d (d\<lparr>shared := (c, w')\<rparr>)"
| join_ok: "outcome d = None \<Longrightarrow> phase (http_door d) = Closed \<Longrightarrow> phase (grpc_door d) = Closed \<Longrightarrow>
    dual_step k addr tonic s web d (d\<lparr>outcome := Some (Inr ())\<rparr>)"
| http_err: "outcome d = None \<Longrightarrow> phase (http_door d) = Failed e \<Longrightarrow>
    dual_step k addr tonic s web d (d\<lparr>outcome := Some (Inl e), grpc_door := drop_door (grpc_door d)\<rparr>)"
| grpc_err: "outcome d = None \<Longrightarrow> phase (grpc_door d) = Failed e \<Longrightarrow>
    dual_step k addr tonic s web d (d\<lparr>outcome := Some (Inl e), http_door := drop_door (http_door d)\<rparr>)"

inductive dual_running for k addr tonic s web cap thr where
  start: "dual_running k addr tonic s web cap thr (start_dual_server (cache_new cap thr, w))"
| step: "dual_running k addr tonic s web cap thr d \<Longrightarrow> dual_step k addr tonic s web d d' \<Longrightarrow>
    dual_running k addr tonic s web cap thr d'"

inductive single_running for k addr s web cap thr where
  start: "single_running k addr s web cap thr (start_server (cache_new cap thr, w))"
| step: "single_running k addr s web cap thr d \<Longrightarrow> single_step k addr s web d d' \<Longrightarrow>
    single_running k addr s web cap thr d'"

section \<open>What a door keeps\<close>

text \<open>The books of a door: what it accepted is what it answered, what it lost because the client hung up,
  and what it still holds.\<close>

definition books :: "('req, 'task, 'rep) door \<Rightarrow> bool" where
  "books d \<longleftrightarrow>
     mset (accepted d) = mset (map fst (answered d)) + mset (hung_up d) + mset (map fst (in_flight d)) \<and>
     (phase d = Closed \<longrightarrow> in_flight d = [])"

text \<open>Where a door stands relative to its shutdown future.\<close>

definition timely :: "bool \<Rightarrow> ('req, 'task, 'rep) door \<Rightarrow> bool" where
  "timely fired d \<longleftrightarrow> (phase d \<in> {Draining, Closed} \<longrightarrow> fired)"

lemma new_door_simps [simp]:
  "books new_door" "timely f new_door" "answered new_door = []" "in_flight new_door = []" "phase new_door = Booting"
  by (simp_all add: books_def timely_def new_door_def)

lemma drop_door_simps [simp]:
  "books d \<Longrightarrow> books (drop_door d)" "timely f d \<Longrightarrow> timely f (drop_door d)"
  "answered (drop_door d) = answered d" "in_flight (drop_door d) = in_flight d"
  by (auto simp: books_def timely_def drop_door_def)

lemma timely_mono: "timely f d \<Longrightarrow> (f \<Longrightarrow> f') \<Longrightarrow> timely f' d"
  by (auto simp: timely_def)

lemma door_step_books: "door_step boot svc fired (d, st) (d', st') \<Longrightarrow> books d \<Longrightarrow> books d'"
  by (elim door_stepE) (auto simp: books_def up_def)

lemma door_step_timely: "door_step boot svc fired (d, st) (d', st') \<Longrightarrow> timely fired d \<Longrightarrow> timely fired d'"
  by (elim door_stepE) (auto simp: timely_def up_def)

text \<open>What a door still has to do once its shutdown future is ready: run and answer what it holds, stop
  accepting, return; \<open>left\<close> bounds the steps of a task.\<close>

definition work :: "('task \<Rightarrow> nat) \<Rightarrow> ('req, 'task, 'rep) door \<Rightarrow> nat" where
  "work left d =
     (let held = sum_list (map (\<lambda>(req, t). Suc (left t)) (in_flight d)) in
      case phase d of Serving \<Rightarrow> held + 2 | Draining \<Rightarrow> held + 1 | _ \<Rightarrow> 0)"

text \<open>What the host relies on in the service it hosts: tasks start well, a step keeps what holds of the
  shared cache and of its task, a reply is fine, and no task runs for ever.\<close>

locale hosted =
  fixes svc :: "('req, 'task, 'rep, 'w) service"
    and good :: "semantic_cache \<Rightarrow> bool"
    and ok :: "'task \<Rightarrow> bool"
    and fine :: "'rep \<Rightarrow> bool"
    and left :: "'task \<Rightarrow> nat"
  assumes open_ok: "ok (open_task svc req)"
    and run_ok: "good c \<Longrightarrow> ok t \<Longrightarrow> run_task svc t (c, w) = (t', (c', w')) \<Longrightarrow> good c' \<and> ok t'"
    and reply_fine: "ok t \<Longrightarrow> task_reply svc t = Some rep \<Longrightarrow> fine rep"
    and run_left: "task_reply svc t = None \<Longrightarrow> run_task svc t st = (t', st') \<Longrightarrow> left t' < left t"
begin

definition door_fine :: "('req, 'task, 'rep) door \<Rightarrow> bool" where
  "door_fine d \<longleftrightarrow> (\<forall>t \<in> snd ` set (in_flight d). ok t) \<and> (\<forall>rep \<in> snd ` set (answered d). fine rep)"

lemma door_keeps:
  assumes "door_step boot svc fired (d, st) (d', st')" "good (fst st)" "door_fine d"
  shows "good (fst st') \<and> door_fine d'"
  using assms
proof (elim door_stepE)
  fix xs req t ys t'
  assume held: "in_flight d = xs @ (req, t) # ys" and run: "run_task svc t st = (t', st')"
    and d': "d' = d\<lparr>in_flight := xs @ (req, t') # ys\<rparr>"
  obtain c w c' w' where st: "st = (c, w)" "st' = (c', w')" by (metis surj_pair)
  have "ok t" using assms(3) held by (simp add: door_fine_def)
  then have "good c' \<and> ok t'" using run_ok [of c t w t' c' w'] run st assms(2) by simp
  with assms(3) st d' held show ?thesis by (auto simp: door_fine_def)
next
  fix xs req t ys rep
  assume held: "in_flight d = xs @ (req, t) # ys" and replied: "task_reply svc t = Some rep"
    and d': "d' = d\<lparr>in_flight := xs @ ys, answered := answered d @ [(req, rep)]\<rparr>" and st: "st' = st"
  have "ok t" using assms(3) held by (simp add: door_fine_def)
  then have "fine rep" using reply_fine replied by blast
  with assms(2,3) st d' held show ?thesis by (auto simp: door_fine_def)
qed (auto simp: door_fine_def open_ok)

lemma fresh_fine: "door_fine new_door"
  by (simp add: door_fine_def)

lemma dropped_fine: "door_fine (drop_door d) = door_fine d"
  by (simp add: door_fine_def)

lemma draining_works:
  assumes "door_step boot svc fired (d, st) (d', st')" "phase d = Draining"
  shows "work left d' < work left d \<and> accepted d' = accepted d \<and> phase d' \<noteq> Serving"
  using assms(1)
  by (rule door_stepE) (use assms(2) run_left in \<open>auto simp: work_def Let_def\<close>)

text \<open>From every state of a door that is up there is a way to close it, on which no client hangs up.\<close>

lemma door_can_close:
  assumes "up d" fired
  shows "\<exists>d' st'. (door_step boot svc fired)\<^sup>*\<^sup>* (d, st) (d', st') \<and> phase d' = Closed \<and>
    accepted d' = accepted d \<and> hung_up d' = hung_up d"
  using assms(1)
proof (induction "work left d" arbitrary: d st rule: less_induct)
  case less
  have onward: ?case if step: "door_step boot svc fired (d, st) (d1, st1)" and "work left d1 < work left d" "up d1"
    "accepted d1 = accepted d" "hung_up d1 = hung_up d" for d1 st1
    using less.hyps [OF that(2,3), of st1] step that(4,5) by (metis converse_rtranclp_into_rtranclp)
  show ?case
  proof (cases "in_flight d")
    case (Cons held rest)
    obtain req t where held: "held = (req, t)" by fastforce
    show ?thesis
    proof (cases "task_reply svc t")
      case None
      obtain t' st1 where run: "run_task svc t st = (t', st1)" by (metis surj_pair)
      show ?thesis
        using door_step.progress [of d "[]" req t rest svc st t' st1] less.prems Cons held None run run_left [OF None run]
        by (intro onward [of "d\<lparr>in_flight := (req, t') # rest\<rparr>" st1]) (auto simp: work_def up_def)
    next
      case (Some rep)
      show ?thesis
        using door_step.answer [of d "[]" req t rest svc rep] less.prems Cons held Some
        by (intro onward [of "d\<lparr>in_flight := rest, answered := answered d @ [(req, rep)]\<rparr>" st])
          (auto simp: work_def up_def)
    qed
  next
    case Nil
    show ?thesis
    proof (cases "phase d = Draining")
      case True
      then have "door_step boot svc fired (d, st) (d\<lparr>phase := Closed\<rparr>, st)" using Nil by (rule door_step.close)
      then show ?thesis by (intro exI [of _ "d\<lparr>phase := Closed\<rparr>"] exI [of _ st]) auto
    next
      case False
      with less.prems have "phase d = Serving" by (simp add: up_def)
      with Nil assms(2) show ?thesis
        by (intro onward [of "d\<lparr>phase := Draining\<rparr>" st]) (auto simp: work_def up_def intro: door_step.drain)
    qed
  qed
qed

end

text \<open>The two services over one cache.\<close>

interpretation http_host: hosted "http_service s web" "task_cache s cap thr" "http_task_ok s"
    "\<lambda>rep. sound_env s \<longrightarrow> safe_reply s rep" http_left
  for s web cap thr
proof
  fix c t w t' c' w'
  assume "task_cache s cap thr c" "http_task_ok s t" "run_task (http_service s web) t (c, w) = (t', (c', w'))"
  then show "task_cache s cap thr c' \<and> http_task_ok s t'"
    unfolding http_service_def service.simps by (rule http_step_ok)
next
  fix t rep
  assume "http_task_ok s t" "task_reply (http_service s web) t = Some rep"
  then show "sound_env s \<longrightarrow> safe_reply s rep" by (cases t) (simp_all add: http_service_def)
next
  fix t st t' st'
  assume "task_reply (http_service s web) t = None" "run_task (http_service s web) t st = (t', st')"
  then show "http_left t' < http_left t" unfolding http_service_def service.simps by (rule http_step_left)
qed (simp add: http_service_def)

interpretation grpc_host: hosted "grpc_service s" "task_cache s cap thr" "rpc_task_ok s"
    "\<lambda>rep. sound_env s \<longrightarrow> safe_rpc s rep" rpc_left
  for s cap thr
proof
  fix c t w t' c' w'
  assume "task_cache s cap thr c" "rpc_task_ok s t" "run_task (grpc_service s) t (c, w) = (t', (c', w'))"
  then show "task_cache s cap thr c' \<and> rpc_task_ok s t'"
    unfolding grpc_service_def service.simps by (rule rpc_step_ok)
next
  fix t rep
  assume "rpc_task_ok s t" "task_reply (grpc_service s) t = Some rep"
  then show "sound_env s \<longrightarrow> safe_rpc s rep" by (cases t) (simp_all add: grpc_service_def)
next
  fix t st t' st'
  assume "task_reply (grpc_service s) t = None" "run_task (grpc_service s) t st = (t', st')"
  then show "rpc_left t' < rpc_left t" unfolding grpc_service_def service.simps by (rule rpc_step_left)
qed (simp add: grpc_service_def)

section \<open>What a run keeps\<close>

abbreviation http_fine ::
  "('w, 'q, 'o, 'p, 'b, 'conn, 'tbl, 'res, 'enc, 'j) app_state
     \<Rightarrow> (http_request, 'j http_task, 'j http_reply) door \<Rightarrow> bool" where
  "http_fine s \<equiv> hosted.door_fine (http_task_ok s) (\<lambda>rep. sound_env s \<longrightarrow> safe_reply s rep)"

abbreviation rpc_fine ::
  "('w, 'q, 'o, 'p, 'b, 'conn, 'tbl, 'res, 'enc, 'j) app_state
     \<Rightarrow> (rpc_request, rpc_task, rpc_reply) door \<Rightarrow> bool" where
  "rpc_fine s \<equiv> hosted.door_fine (rpc_task_ok s) (\<lambda>rep. sound_env s \<longrightarrow> safe_rpc s rep)"

definition dual_ok where
  "dual_ok s cap thr d \<longleftrightarrow>
     task_cache s cap thr (fst (shared d)) \<and>
     (changed (channel d) \<longleftrightarrow> task d = Ended) \<and>
     books (http_door d) \<and> books (grpc_door d) \<and>
     timely (changed (channel d)) (http_door d) \<and> timely (changed (channel d)) (grpc_door d) \<and>
     http_fine s (http_door d) \<and>
     rpc_fine s (grpc_door d) \<and>
     (case outcome d of
        None \<Rightarrow> True
      | Some (Inr _) \<Rightarrow> phase (http_door d) = Closed \<and> phase (grpc_door d) = Closed
      | Some (Inl e) \<Rightarrow> phase (http_door d) = Failed e \<or> phase (grpc_door d) = Failed e)"

lemma dual_ok_start: "dual_ok s cap thr (start_dual_server (cache_new cap thr, w))"
  by (simp add: dual_ok_def start_dual_server_def changed_def task_cache_new
      http_host.fresh_fine grpc_host.fresh_fine)

lemma dual_step_ok: "dual_step k addr tonic s web d d' \<Longrightarrow> dual_ok s cap thr d \<Longrightarrow> dual_ok s cap thr d'"
proof (induction rule: dual_step.induct)
  case (signal d t t')
  then show ?case by (auto simp: dual_ok_def)
next
  case (send d src)
  then show ?case by (auto simp: dual_ok_def changed_def timely_def)
next
  case (unwind d m)
  then show ?case by (auto simp: dual_ok_def changed_def timely_def)
next
  case (http d h st)
  note step = http.hyps(2)
  have "task_cache s cap thr (fst st) \<and> http_fine s h"
    using http_host.door_keeps [OF step] http.prems unfolding dual_ok_def by blast
  moreover have "books h" "timely (changed (channel d)) h"
    using door_step_books [OF step] door_step_timely [OF step] http.prems unfolding dual_ok_def by blast+
  ultimately show ?case using http.hyps(1) http.prems by (auto simp: dual_ok_def)
next
  case (grpc d g st)
  note step = grpc.hyps(2)
  have "task_cache s cap thr (fst st) \<and> rpc_fine s g"
    using grpc_host.door_keeps [OF step] grpc.prems unfolding dual_ok_def by blast
  moreover have "books g" "timely (changed (channel d)) g"
    using door_step_books [OF step] door_step_timely [OF step] grpc.prems unfolding dual_ok_def by blast+
  ultimately show ?case using grpc.hyps(1) grpc.prems by (auto simp: dual_ok_def)
qed (auto simp: dual_ok_def http_host.dropped_fine grpc_host.dropped_fine)

lemma dual_running_ok: "dual_running k addr tonic s web cap thr d \<Longrightarrow> dual_ok s cap thr d"
  by (induction rule: dual_running.induct) (auto intro: dual_ok_start dual_step_ok)

definition single_ok where
  "single_ok s cap thr d \<longleftrightarrow>
     task_cache s cap thr (fst (single_state d)) \<and>
     books (only_door d) \<and> timely (completed (signal d)) (only_door d) \<and>
     http_fine s (only_door d) \<and>
     (case single_outcome d of
        None \<Rightarrow> True
      | Some (Inr _) \<Rightarrow> phase (only_door d) = Closed
      | Some (Inl e) \<Rightarrow> phase (only_door d) = Failed e)"

lemma shutdown_step_live: "shutdown_step t t' \<Longrightarrow> \<not> completed t"
  by (elim shutdown_stepE) simp_all

lemma single_step_ok: "single_step k addr s web d d' \<Longrightarrow> single_ok s cap thr d \<Longrightarrow> single_ok s cap thr d'"
proof (induction rule: single_step.induct)
  case (signal d t)
  then show ?case by (auto simp: single_ok_def dest: shutdown_step_live intro: timely_mono)
next
  case (door d h st)
  note step = door.hyps(2)
  have "task_cache s cap thr (fst st) \<and> http_fine s h"
    using http_host.door_keeps [OF step] door.prems unfolding single_ok_def by blast
  with door.hyps(1) door.prems door_step_books [OF step] door_step_timely [OF step]
  show ?case by (simp add: single_ok_def)
qed (auto simp: single_ok_def)

lemma single_running_ok: "single_running k addr s web cap thr d \<Longrightarrow> single_ok s cap thr d"
proof (induction rule: single_running.induct)
  case (start w)
  show ?case by (simp add: single_ok_def start_server_def task_cache_new http_host.fresh_fine)
next
  case (step d d')
  then show ?case using single_step_ok by blast
qed

section \<open>Draining\<close>

lemma http_path:
  assumes "(door_step (listen_on k addr) (http_service s web) (changed (channel d)))\<^sup>*\<^sup>* (http_door d, shared d) (h, st)"
    "outcome d = None"
  shows "(dual_step k addr tonic s web)\<^sup>*\<^sup>* d (d\<lparr>http_door := h, shared := st\<rparr>)"
  using assms(1)
proof (induction rule: rtranclp_induct2)
  case refl
  then show ?case by simp
next
  case (step h1 st1 h2 st2)
  have "dual_step k addr tonic s web (d\<lparr>http_door := h1, shared := st1\<rparr>)
      ((d\<lparr>http_door := h1, shared := st1\<rparr>)\<lparr>http_door := h2, shared := st2\<rparr>)"
    using step.hyps(2) assms(2) by (intro dual_step.http) simp_all
  with step.IH show ?case by (simp add: rtranclp.rtrancl_into_rtrancl)
qed

lemma grpc_path:
  assumes "(door_step tonic (grpc_service s) (changed (channel d)))\<^sup>*\<^sup>* (grpc_door d, shared d) (g, st)"
    "outcome d = None"
  shows "(dual_step k addr tonic s web)\<^sup>*\<^sup>* d (d\<lparr>grpc_door := g, shared := st\<rparr>)"
  using assms(1)
proof (induction rule: rtranclp_induct2)
  case refl
  then show ?case by simp
next
  case (step g1 st1 g2 st2)
  have "dual_step k addr tonic s web (d\<lparr>grpc_door := g1, shared := st1\<rparr>)
      ((d\<lparr>grpc_door := g1, shared := st1\<rparr>)\<lparr>grpc_door := g2, shared := st2\<rparr>)"
    using step.hyps(2) assms(2) by (intro dual_step.grpc) simp_all
  with step.IH show ?case by (simp add: rtranclp.rtrancl_into_rtrancl)
qed

lemma dual_drains:
  assumes "outcome d = None" "task d = Ended" "changed (channel d)" "up (http_door d)" "up (grpc_door d)"
  shows "\<exists>d'. (dual_step k addr tonic s web)\<^sup>*\<^sup>* d d' \<and> outcome d' = Some (Inr ()) \<and>
    accepted (http_door d') = accepted (http_door d) \<and> accepted (grpc_door d') = accepted (grpc_door d) \<and>
    hung_up (http_door d') = hung_up (http_door d) \<and> hung_up (grpc_door d') = hung_up (grpc_door d) \<and>
    channel d' = channel d"
proof -
  obtain h st where h: "(door_step (listen_on k addr) (http_service s web) (changed (channel d)))\<^sup>*\<^sup>*
      (http_door d, shared d) (h, st)" "phase h = Closed"
      "accepted h = accepted (http_door d)" "hung_up h = hung_up (http_door d)"
    using http_host.door_can_close [OF assms(4,3)] by blast
  let ?d1 = "d\<lparr>http_door := h, shared := st\<rparr>"
  have path1: "(dual_step k addr tonic s web)\<^sup>*\<^sup>* d ?d1" using h(1) assms(1) by (rule http_path)
  obtain g st2 where g: "(door_step tonic (grpc_service s) (changed (channel ?d1)))\<^sup>*\<^sup>*
      (grpc_door ?d1, shared ?d1) (g, st2)" "phase g = Closed"
      "accepted g = accepted (grpc_door d)" "hung_up g = hung_up (grpc_door d)"
    using grpc_host.door_can_close [of "grpc_door ?d1" "changed (channel ?d1)" tonic s "shared ?d1"] assms(3,5)
    by auto
  let ?d2 = "?d1\<lparr>grpc_door := g, shared := st2\<rparr>"
  have "(dual_step k addr tonic s web)\<^sup>*\<^sup>* ?d1 ?d2" using g(1) assms(1) by (intro grpc_path) simp_all
  moreover have "dual_step k addr tonic s web ?d2 (?d2\<lparr>outcome := Some (Inr ())\<rparr>)"
    using assms(1) h(2) g(2) by (intro dual_step.join_ok) simp_all
  ultimately have "(dual_step k addr tonic s web)\<^sup>*\<^sup>* d (?d2\<lparr>outcome := Some (Inr ())\<rparr>)"
    using path1 by (meson rtranclp.rtrancl_into_rtrancl rtranclp_trans)
  then show ?thesis
    using h(3,4) g(3,4) by (intro exI [of _ "?d2\<lparr>outcome := Some (Inr ())\<rparr>"]) simp
qed

text \<open>What was answered is safe, and the cache is a reachable one.\<close>

lemma http_grounded:
  assumes "codec_ok s" "order_sound (chunk_order s)" "dual_running k addr tonic s web cap thr d"
    and "(req, (code, body)) \<in> set (answered (http_door d))" "body_answer body = Some (Verified p)" "answer_found p"
  shows "\<exists>name city. str_contains (chunk_text s (source_chunk_id p) name city) (exact_quote p)"
proof -
  note ok = dual_running_ok [OF assms(3), unfolded dual_ok_def http_host.door_fine_def]
  have env: "sound_env s" using assms(1,2) by (simp add: sound_env_def)
  have "(code, body) \<in> snd ` set (answered (http_door d))" using assms(4) by force
  with ok env have "safe_reply s (code, body)" by blast
  with assms(5,6) show ?thesis by (simp add: safe_reply_def safe_answer_def grounded_def)
qed

lemma rpc_grounded:
  assumes "codec_ok s" "order_sound (chunk_order s)" "dual_running k addr tonic s web cap thr d"
    and "(req, Semantic_Reply (Inr resp)) \<in> set (answered (grpc_door d))" "rc \<in> set (records resp)"
      "rec_score rc = f32_one"
  shows "\<exists>name city. str_contains (chunk_text s (rec_kunnr rc) name city) (rec_sentence rc)"
proof -
  note ok = dual_running_ok [OF assms(3), unfolded dual_ok_def grpc_host.door_fine_def]
  have env: "sound_env s" using assms(1,2) by (simp add: sound_env_def)
  have "Semantic_Reply (Inr resp) \<in> snd ` set (answered (grpc_door d))" using assms(4) by force
  with ok env have "safe_rpc s (Semantic_Reply (Inr resp))" by blast
  with assms(5,6) show ?thesis by (auto intro: semantic_records_safe)
qed

lemma running_cache_bounded:
  assumes "dual_running k addr tonic s web cap thr d"
  shows "length (entries (fst (shared d))) \<le> max 1 cap"
  using dual_running_ok [OF assms, unfolded dual_ok_def, THEN conjunct1, unfolded task_cache_def, THEN conjunct1]
  by (rule reachable_bounded [THEN conjunct1])

lemma running_path:
  assumes "dual_running k addr tonic s web cap thr d" "(dual_step k addr tonic s web)\<^sup>*\<^sup>* d d'"
  shows "dual_running k addr tonic s web cap thr d'"
  using assms(2,1) by induction (auto intro: dual_running.step)

section \<open>A run\<close>

definition still_kernel :: "('w, unit, unit) kernel" where
  "still_kernel = \<lparr>socket_new = (\<lambda>_. io_ok ()), set_option = (\<lambda>_ _. io_ok ()), bind_socket = (\<lambda>_ _. io_ok ()),
     listen_socket = (\<lambda>_ _. io_ok ()), from_std = (\<lambda>_. io_ok ()), close_socket = (\<lambda>_ w. w)\<rparr>"

lemma still_listen: "listen_on still_kernel addr w = (Inr (), w)"
  by (simp add: listen_on_def create_tuned_tcp_listener_def still_kernel_def io_ok_def dropping_def)

text \<open>The signal's task runs to its end beside everything else, and wakes both servers.\<close>

lemma signal_task_ends:
  assumes "shutdown_step\<^sup>*\<^sup>* shutdown_signal t" "t = Received src \<or> t = Unwound m"
    and "dual_running k addr tonic s web cap thr d" "outcome d = None"
    and "task d = Awaiting shutdown_signal" "\<not> value_sent (channel d)"
  obtains ch where "dual_running k addr tonic s web cap thr (d\<lparr>task := Ended, channel := ch\<rparr>)"
    "value_sent ch = (t = Received src)" "sender_dropped ch"
proof -
  let ?run = "dual_running k addr tonic s web cap thr"
  have waits: "?run (d\<lparr>task := Awaiting t\<rparr>)"
    using assms(1)
  proof (induction rule: rtranclp_induct)
    case base
    show ?case using assms(3) by (simp flip: assms(5))
  next
    case (step t1 t2)
    have "dual_step k addr tonic s web (d\<lparr>task := Awaiting t1\<rparr>) ((d\<lparr>task := Awaiting t1\<rparr>)\<lparr>task := Awaiting t2\<rparr>)"
      using assms(4) step.hyps(2) by (intro dual_step.signal) simp_all
    with step.IH show ?case by (auto intro: dual_running.step)
  qed
  show ?thesis
  proof (cases "t = Received src")
    case True
    let ?ch = "\<lparr>value_sent = True, sender_dropped = True\<rparr>"
    have "?run ((d\<lparr>task := Awaiting t\<rparr>)\<lparr>task := Ended, channel := ?ch\<rparr>)"
      using True assms(4) by (intro dual_running.step [OF waits] dual_step.send) simp_all
    then show ?thesis using True by (intro that [of ?ch]) simp_all
  next
    case False
    let ?d = "d\<lparr>task := Awaiting t\<rparr>" and ?ch = "(channel d)\<lparr>sender_dropped := True\<rparr>"
    have "?run (?d\<lparr>task := Ended, channel := (channel ?d)\<lparr>sender_dropped := True\<rparr>\<rparr>)"
      using False assms(2,4) by (intro dual_running.step [OF waits] dual_step.unwind) auto
    then show ?thesis using False assms(6) by (intro that [of ?ch]) simp_all
  qed
qed

text \<open>Both servers up and one request accepted, and then the task of the signal ends, either way.\<close>

lemma boot_and_accept:
  fixes w :: 'w
  assumes "create_tuned_tcp_listener k addr w = (Inr l, w1)" "tonic w1 = (Inr (), w2)"
    "shutdown_step\<^sup>*\<^sup>* shutdown_signal t" "t = Received src \<or> t = Unwound m"
  shows "\<exists>d :: (http_request, 'j http_task, 'j http_reply, rpc_request, rpc_task, rpc_reply, 'w) dual.
    dual_running k addr tonic s web cap thr d \<and> outcome d = None \<and> task d = Ended \<and>
    up (http_door d) \<and> up (grpc_door d) \<and> accepted (http_door d) = [req] \<and>
    in_flight (http_door d) = [(req, Entering req)] \<and> answered (http_door d) = [] \<and>
    hung_up (http_door d) = [] \<and> shared d = (cache_new cap thr, w2) \<and>
    value_sent (channel d) = (t = Received src) \<and> changed (channel d)"
proof -
  let ?run = "dual_running k addr tonic s web cap thr" and ?step = "dual_step k addr tonic s web"
  define d0 :: "(http_request, 'j http_task, 'j http_reply, rpc_request, rpc_task, rpc_reply, 'w) dual"
    where "d0 = start_dual_server (cache_new cap thr, w)"
  have r0: "?run d0" unfolding d0_def by (rule dual_running.start)
  have d0: "outcome d0 = None" "http_door d0 = new_door" "grpc_door d0 = new_door"
    "shared d0 = (cache_new cap thr, w)" "task d0 = Awaiting shutdown_signal" "\<not> value_sent (channel d0)"
    by (simp_all add: d0_def start_dual_server_def)
  define d1 where "d1 = d0\<lparr>http_door := new_door\<lparr>phase := Serving\<rparr>, shared := (cache_new cap thr, w1)\<rparr>"
  have s1: "?step d0 d1" unfolding d1_def
    using d0 assms(1) by (intro dual_step.http) (auto intro!: door_step.bind simp: listen_on_def io_ok_def)
  define d2 where "d2 = d1\<lparr>grpc_door := new_door\<lparr>phase := Serving\<rparr>, shared := (cache_new cap thr, w2)\<rparr>"
  have s2: "?step d1 d2" unfolding d2_def
    using d0 assms(2) by (intro dual_step.grpc) (auto intro!: door_step.bind simp: d1_def)
  define d3 where "d3 = d2\<lparr>http_door := (http_door d2)\<lparr>in_flight := in_flight (http_door d2) @ [(req, open_task (http_service s web) req)],
    accepted := accepted (http_door d2) @ [req]\<rparr>, shared := shared d2\<rparr>"
  have s3: "?step d2 d3" unfolding d3_def
    using d0 by (intro dual_step.http door_step.accept) (auto simp: d1_def d2_def)
  have r3: "?run d3" using r0 s1 s2 s3 by (meson dual_running.step)
  have d3: "outcome d3 = None" "task d3 = Awaiting shutdown_signal" "\<not> value_sent (channel d3)"
    "up (http_door d3)" "up (grpc_door d3)"
    "accepted (http_door d3) = [req]" "in_flight (http_door d3) = [(req, Entering req)]"
    "answered (http_door d3) = []" "hung_up (http_door d3) = []" "shared d3 = (cache_new cap thr, w2)"
    using d0 by (simp_all add: d1_def d2_def d3_def up_def new_door_def http_service_def)
  obtain ch where "?run (d3\<lparr>task := Ended, channel := ch\<rparr>)" "value_sent ch = (t = Received src)" "sender_dropped ch"
    using signal_task_ends [OF assms(3,4) r3 d3(1-3)] by blast
  then show ?thesis using d3 by (intro exI [of _ "d3\<lparr>task := Ended, channel := ch\<rparr>"]) (simp add: changed_def)
qed

text \<open>The demo: the kernel and tonic bind at once, a question is posted, then SIGTERM or a failed
  installation ends the signal's task.\<close>

abbreviation demo_service where
  "demo_service \<equiv> demo_app (\<lambda>_. Inr ''A'')"

abbreviation demo_running where
  "demo_running \<equiv> dual_running still_kernel (V4 0 8080) (io_ok ()) demo_service demo_web 4 f32_one"

lemma still_socket: "create_tuned_tcp_listener still_kernel addr w = (Inr (), w)"
  by (simp add: create_tuned_tcp_listener_def still_kernel_def io_ok_def dropping_def)

lemma signal_ends:
  "shutdown_step\<^sup>*\<^sup>* shutdown_signal (Received Terminate)"
  "shutdown_step\<^sup>*\<^sup>* shutdown_signal (Unwound ''failed to install Ctrl+C handler'')"
proof -
  have "shutdown_step shutdown_signal (Pending False True)" "shutdown_step (Pending False True) (Received Terminate)"
    by (simp_all add: shutdown_signal_def shutdown_step.install_terminate shutdown_step.terminate)
  then show "shutdown_step\<^sup>*\<^sup>* shutdown_signal (Received Terminate)" by (meson rtranclp.rtrancl_refl rtranclp.rtrancl_into_rtrancl)
  show "shutdown_step\<^sup>*\<^sup>* shutdown_signal (Unwound ''failed to install Ctrl+C handler'')"
    unfolding shutdown_signal_def by (rule r_into_rtranclp) (rule shutdown_step.ctrl_c_fails)
qed

lemma demo_accepts:
  assumes "sent \<in> {True, False}"
  shows "\<exists>d. demo_running d \<and> outcome d = None \<and> task d = Ended \<and> up (http_door d) \<and> up (grpc_door d) \<and>
    accepted (http_door d) = [post ''/query/semantic'' ''who''] \<and> value_sent (channel d) = sent \<and>
    changed (channel d) \<and> in_flight (http_door d) =
      [(post ''/query/semantic'' ''who'', Entering (post ''/query/semantic'' ''who''))] \<and>
    answered (http_door d) = [] \<and> hung_up (http_door d) = [] \<and> shared d = (cache_new 4 f32_one, demo_table)"
proof -
  let ?t = "if sent then Received Terminate else Unwound ''failed to install Ctrl+C handler''"
  have t: "shutdown_step\<^sup>*\<^sup>* shutdown_signal ?t" using signal_ends by simp
  have "?t = Received Terminate \<or> ?t = Unwound ''failed to install Ctrl+C handler''" by simp
  note boot = boot_and_accept [where tonic = "io_ok ()", OF still_socket io_ok_def t this,
    of "V4 0 8080" demo_service demo_web 4 f32_one "post ''/query/semantic'' ''who''" demo_table]
  have "(?t = Received Terminate) = sent" by simp
  with boot show ?thesis by metis
qed

text \<open>The task of a lone request runs to the reply of its handler.\<close>

lemma lone_request:
  assumes "up d" "in_flight d = [(req, t)]" "http_rest s web t st = (rep, st')"
  shows "(door_step boot (http_service s web) fired)\<^sup>*\<^sup>* (d, st)
    (d\<lparr>in_flight := [], answered := answered d @ [(req, rep)]\<rparr>, st')"
  using assms
proof (induction "http_left t" arbitrary: d t st rule: less_induct)
  case less
  let ?go = "door_step boot (http_service s web) fired"
  show ?case
  proof (cases "http_reply_of t")
    case None
    obtain t1 st1 where run: "http_step s web t st = (t1, st1)" by (metis surj_pair)
    let ?d1 = "d\<lparr>in_flight := [(req, t1)]\<rparr>"
    have step: "?go (d, st) (?d1, st1)"
      using door_step.progress [of d "[]" req t "[]" "http_service s web" st t1 st1] less.prems(1,2) None run
      by (simp add: http_service_def)
    have "?go\<^sup>*\<^sup>* (?d1, st1) (?d1\<lparr>in_flight := [], answered := answered ?d1 @ [(req, rep)]\<rparr>, st')"
      using less.prems http_step_left [OF None run] http_step_rest [OF run]
      by (intro less.hyps) (simp_all add: up_def)
    with step show ?thesis by (simp add: converse_rtranclp_into_rtranclp)
  next
    case (Some r)
    then have "t = Replied r" by (cases t) simp_all
    with less.prems(3) have "r = rep" "st' = st" by simp_all
    then have "?go (d, st) (d\<lparr>in_flight := [], answered := answered d @ [(req, rep)]\<rparr>, st')"
      using door_step.answer [of d "[]" req t "[]" "http_service s web" rep] less.prems(1,2) Some
      by (simp add: http_service_def)
    then show ?thesis by (rule r_into_rtranclp)
  qed
qed

section \<open>Properties\<close>







text \<open>\<open>start_server\<close>, the HTTP door alone: it returns \<open>Ok\<close> only after its shutdown signal has
  completed and every accepted request has been answered or its client hung up, and an error only when its server failed
  with it.\<close>

theorem start_server_outcome:
  assumes "single_running k addr s web cap thr d"
  shows "case single_outcome d of
      None \<Rightarrow> True
    | Some (Inr _) \<Rightarrow> completed (signal d) \<and>
        mset (accepted (only_door d)) = mset (map fst (answered (only_door d))) + mset (hung_up (only_door d))
    | Some (Inl e) \<Rightarrow> phase (only_door d) = Failed e"
  using single_running_ok [OF assms]
  by (auto simp: single_ok_def books_def timely_def split: option.split sum.split)

theorem start_server_outcome_witness:
  "\<exists>d e. single_running (still_kernel\<lparr>from_std := (\<lambda>_. io_err (External ''EMFILE''))\<rparr>) (V4 0 80)
      demo_service demo_web 4 f32_one d \<and> single_outcome d = Some (Inl e) \<and> phase (only_door d) = Failed e"
proof -
  let ?k = "still_kernel\<lparr>from_std := (\<lambda>_. io_err (External ''EMFILE''))\<rparr>"
  let ?run = "single_running ?k (V4 0 80) demo_service demo_web 4 f32_one"
  let ?d0 = "start_server (cache_new 4 f32_one, demo_table)"
  have fails: "listen_on ?k (V4 0 80) demo_table = (Inl (External ''EMFILE''), demo_table)"
    by (simp add: listen_on_def create_tuned_tcp_listener_def still_kernel_def io_ok_def io_err_def dropping_def
        io_try_def)
  let ?d1 = "?d0\<lparr>only_door := new_door\<lparr>phase := Failed (External ''EMFILE'')\<rparr>,
    single_state := (cache_new 4 f32_one, demo_table)\<rparr>"
  have "single_step ?k (V4 0 80) demo_service demo_web ?d0 ?d1"
    using fails by (intro single_step.door) (auto intro!: door_step.bind_fails simp: start_server_def)
  then have "?run ?d1" by (rule single_running.step [OF single_running.start])
  moreover have "single_step ?k (V4 0 80) demo_service demo_web ?d1
      (?d1\<lparr>single_outcome := Some (Inl (External ''EMFILE''))\<rparr>)"
    by (rule single_step.return_err) (simp_all add: start_server_def)
  ultimately have run: "?run (?d1\<lparr>single_outcome := Some (Inl (External ''EMFILE''))\<rparr>)"
    by (rule single_running.step)
  from start_server_outcome [OF run] run show ?thesis by (intro exI conjI) (assumption | simp)+
qed

text \<open>A handler that cannot be installed shuts the service down as if it had been asked to: its panic
  unwinds the spawned task alone, the sender of the watch channel goes with it, both servers drain, and
  \<open>start_dual_server\<close> returns \<open>Ok\<close> although no value was ever sent.\<close>

theorem signal_panic_shuts_down:
  "\<exists>d. demo_running d \<and> outcome d = Some (Inr ()) \<and> \<not> value_sent (channel d)"
proof -
  obtain d where d: "demo_running d" "outcome d = None" "task d = Ended" "up (http_door d)" "up (grpc_door d)"
      "\<not> value_sent (channel d)" "changed (channel d)"
    using demo_accepts [of False] by blast
  from dual_drains [OF d(2,3,7,4,5), of still_kernel "V4 0 8080" "io_ok ()" demo_service demo_web]
  show ?thesis using d(1,6) running_path by metis
qed

end
