(* ===== verification/Ingest.thy ===== *)
theory Ingest
  imports Vector_Store
begin

text \<open>
  \<open>src/pipelines/ingest\<close>: reading the CSV in batches, leaving out the customers the table already
  has, embedding the rest and inserting them; the guard, the table reset and the indexes of the
  \<open>ingest\<close> command. The CSV reader is the list of the records it deserialises, each one or an
  error.
\<close>

section \<open>The schema\<close>

datatype data_type = Utf8 | Float32 | Fixed_Size_List data_type nat

record field =
  field_name :: string
  field_type :: data_type
  field_nullable :: bool

definition define_schema :: "field list" where
  "define_schema =
     [\<lparr>field_name = ''kunnr'', field_type = Utf8, field_nullable = False\<rparr>,
      \<lparr>field_name = ''name'', field_type = Utf8, field_nullable = False\<rparr>,
      \<lparr>field_name = ''city'', field_type = Utf8, field_nullable = False\<rparr>,
      \<lparr>field_name = ''sentence'', field_type = Utf8, field_nullable = False\<rparr>,
      \<lparr>field_name = ''vector'', field_type = Fixed_Size_List Float32 768, field_nullable = False\<rparr>]"

section \<open>Looking up what is there\<close>

text \<open>The items of the stream that are errors, or lack the column, are skipped.\<close>

definition stream_ids :: "batch_stream \<Rightarrow> string list" where
  "stream_ids stream =
     concat (map (\<lambda>item. case item of
                     Inl _ \<Rightarrow> []
                   | Inr batch \<Rightarrow> (case string_column batch ''kunnr'' of None \<Rightarrow> [] | Some ks \<Rightarrow> ks)) stream)"

definition find_existing_in_db ::
  "('w, 'conn, 'tbl) lancedb \<Rightarrow> 'conn \<Rightarrow> string list \<Rightarrow> 'w \<Rightarrow> string list \<times> 'w" where
  "find_existing_in_db db vector_db ids_for_sql w =
     (if ids_for_sql = [] then ([], w)
      else (case open_table db vector_db ''customers'' w of
              (Inl _, w1) \<Rightarrow> ([], w1)
            | (Inr target_table, w1) \<Rightarrow>
                (case only_if db target_table (''kunnr IN ('' @ str_join '', '' ids_for_sql @ '')'') None w1 of
                   (Inl _, w2) \<Rightarrow> ([], w2)
                 | (Inr stream, w2) \<Rightarrow> (stream_ids stream, w2))))"

section \<open>One batch\<close>

definition or_unknown :: "string option \<Rightarrow> string" where
  "or_unknown v = (case v of None \<Rightarrow> ''Unknown'' | Some s \<Rightarrow> s)"

definition customer_id :: "kna1_row \<Rightarrow> string" where
  "customer_id row = or_unknown (kunnr row)"

definition customer_document :: "kna1_row \<Rightarrow> string" where
  "customer_document row =
     ''Customer '' @ customer_id row @ '' is named '' @ or_unknown (name1 row) @
     '' and is located in '' @ or_unknown (ort01 row) @ '', '' @ or_unknown (land1 row) @ ''.''"

text \<open>The loop with its set \<open>local_seen\<close>: a row is kept when its identifier is new to the batch and
  not among the existing ones.\<close>

fun select_new :: "string list \<Rightarrow> string set \<Rightarrow> kna1_row list \<Rightarrow> kna1_row list" where
  "select_new existing seen [] = []"
| "select_new existing seen (row # rows) =
     (let k = customer_id row in
      if k \<in> seen \<or> k \<in> set existing then select_new existing (insert k seen) rows
      else row # select_new existing (insert k seen) rows)"

definition process_current_batch ::
  "('w, 'conn, 'tbl) lancedb \<Rightarrow> env \<Rightarrow> bert \<Rightarrow> 'conn \<Rightarrow> kna1_row list \<Rightarrow> ('w, err, nat) io" where
  "process_current_batch db env m vector_db batch_records w =
     (let ids_for_sql = map (\<lambda>k. quote # k @ [quote]) (List.map_filter kunnr batch_records);
          (existing_in_db, w1) = find_existing_in_db db vector_db ids_for_sql w;
          selected = select_new existing_in_db {} batch_records;
          documents = map customer_document selected;
          records = map (\<lambda>r. (or_unknown (name1 r), or_unknown (ort01 r), customer_id r)) selected
      in if documents = [] then (Inr 0, w1)
         else io_try (io_lift (get_embeddings env m documents)) (\<lambda>embeddings.
              io_try (insert_batch db vector_db records documents embeddings) (\<lambda>_.
              io_ok (length documents))) w1)"

section \<open>The whole file\<close>

fun csv_loop ::
  "('w, 'conn, 'tbl) lancedb \<Rightarrow> env \<Rightarrow> bert \<Rightarrow> 'conn \<Rightarrow> nat \<Rightarrow> (string + kna1_row) list
     \<Rightarrow> kna1_row list \<Rightarrow> nat \<Rightarrow> ('w, err, nat) io" where
  "csv_loop db env m vector_db batch_size [] batch_records total_inserted =
     (if batch_records = [] then io_ok total_inserted
      else io_try (process_current_batch db env m vector_db batch_records)
             (\<lambda>n. io_ok (total_inserted + n)))"
| "csv_loop db env m vector_db batch_size (Inl e # items) batch_records total_inserted =
     io_err (External e)"
| "csv_loop db env m vector_db batch_size (Inr row # items) batch_records total_inserted =
     (let batch_records' = batch_records @ [row] in
      if batch_size \<le> length batch_records'
      then io_try (process_current_batch db env m vector_db batch_records')
             (\<lambda>n. csv_loop db env m vector_db batch_size items [] (total_inserted + n))
      else csv_loop db env m vector_db batch_size items batch_records' total_inserted)"

definition process_csv_in_batches ::
  "('w, 'conn, 'tbl) lancedb \<Rightarrow> env \<Rightarrow> bert \<Rightarrow> 'conn \<Rightarrow> nat \<Rightarrow> (string + kna1_row) list
     \<Rightarrow> ('w, err, nat) io" where
  "process_csv_in_batches db env m vector_db batch_size csv_reader =
     csv_loop db env m vector_db batch_size csv_reader [] 0"

text \<open>\<open>open_csv\<close> is \<open>File::open\<close> and the reader over the file.\<close>

definition execute_ingestion ::
  "('w, 'conn, 'tbl) lancedb \<Rightarrow> env \<Rightarrow> bert \<Rightarrow> (string \<Rightarrow> string + (string + kna1_row) list)
     \<Rightarrow> string \<Rightarrow> string \<Rightarrow> bool \<Rightarrow> nat \<Rightarrow> ('w, err, unit) io" where
  "execute_ingestion db env m open_csv csv_path db_uri overwrite batch_size =
     (let max_batch = env_usize env ''MAX_EMBEDDING_BATCH_SIZE'' 1024 in
      if batch_size = 0 \<or> max_batch < batch_size then io_err (BadBatchSize max_batch batch_size)
      else
        io_try (connect db db_uri) (\<lambda>vector_db w.
          (let w1 = (if overwrite then snd (drop_table db vector_db ''customers'' w) else w) in
           io_try (io_lift (map_err FileLoad (open_csv csv_path))) (\<lambda>csv_reader.
           io_try (process_csv_in_batches db env m vector_db batch_size csv_reader) (\<lambda>total_inserted w2.
             (case open_table db vector_db ''customers'' w2 of
                (Inl _, w3) \<Rightarrow> (Inr (), w3)
              | (Inr tbl, w3) \<Rightarrow>
                  io_try (create_scalar_index db tbl ''kunnr'') (\<lambda>_.
                  create_vector_index db tbl ''vector'') w3))) w1)))"

section \<open>What the database promises\<close>

text \<open>\<open>view\<close> reads the identifiers of the table (\<open>None\<close> without one). Opening and querying change
  nothing, a query yields rows of the table, \<open>merge_insert\<close> appends exactly the rows whose identifier
  is not there, \<open>create_table\<close> makes the table of the rows, and a call that fails changes nothing.\<close>

definition customers_law :: "('w, 'conn, 'tbl) lancedb \<Rightarrow> 'conn \<Rightarrow> ('w \<Rightarrow> string list option) \<Rightarrow> bool" where
  "customers_law db conn view \<longleftrightarrow>
     (\<forall>w r w'. open_table db conn ''customers'' w = (r, w') \<longrightarrow>
        view w' = view w \<and> (is_ok r \<longrightarrow> view w \<noteq> None)) \<and>
     (\<forall>tbl sql n w r w'. only_if db tbl sql n w = (r, w') \<longrightarrow>
        view w' = view w \<and>
        (\<forall>stream. r = Inr stream \<longrightarrow> set (stream_ids stream) \<subseteq> set (case view w of None \<Rightarrow> [] | Some ks \<Rightarrow> ks))) \<and>
     (\<forall>tbl b w r w'. merge_insert_new db tbl [''kunnr''] b w = (r, w') \<longrightarrow>
        view w' = (if is_ok r then map_option (\<lambda>ks. ks @ filter (\<lambda>k. k \<notin> set ks) (col_kunnr b)) (view w)
                   else view w)) \<and>
     (\<forall>b w r w'. create_table db conn ''customers'' b w = (r, w') \<longrightarrow>
        (if is_ok r then view w = None \<and> view w' = Some (col_kunnr b) else view w' = view w))"

definition ids_of :: "string list option \<Rightarrow> string list" where
  "ids_of v = (case v of None \<Rightarrow> [] | Some ks \<Rightarrow> ks)"

section \<open>Facts\<close>

lemma select_new_ids:
  "distinct (map customer_id (select_new ex seen rows)) \<and>
   set (map customer_id (select_new ex seen rows)) = customer_id ` set rows - seen - set ex"
proof (induction rows arbitrary: seen)
  case Nil
  then show ?case by simp
next
  case (Cons row rows)
  from Cons [of "insert (customer_id row) seen"] show ?case by (auto simp: Let_def)
qed

lemma select_new_length: "length (select_new ex seen rows) \<le> length rows"
  by (induction rows arbitrary: seen) (simp_all add: Let_def le_SucI)

lemma law_open:
  "customers_law db conn view \<Longrightarrow> open_table db conn ''customers'' w = (r, w') \<Longrightarrow>
    view w' = view w \<and> (is_ok r \<longrightarrow> view w \<noteq> None)"
  by (simp add: customers_law_def)

lemma law_query:
  "customers_law db conn view \<Longrightarrow> only_if db tbl sql n w = (r, w') \<Longrightarrow>
    view w' = view w \<and> (\<forall>stream. r = Inr stream \<longrightarrow> set (stream_ids stream) \<subseteq> set (ids_of (view w)))"
  unfolding customers_law_def ids_of_def by blast

lemma law_merge:
  "customers_law db conn view \<Longrightarrow> merge_insert_new db tbl [''kunnr''] b w = (r, w') \<Longrightarrow>
    view w' = (if is_ok r then map_option (\<lambda>ks. ks @ filter (\<lambda>k. k \<notin> set ks) (col_kunnr b)) (view w)
               else view w)"
  unfolding customers_law_def by blast

lemma law_create:
  "customers_law db conn view \<Longrightarrow> create_table db conn ''customers'' b w = (r, w') \<Longrightarrow>
    (if is_ok r then view w = None \<and> view w' = Some (col_kunnr b) else view w' = view w)"
  unfolding customers_law_def by blast

lemma find_existing_law:
  assumes "customers_law db conn view" "find_existing_in_db db conn ids w = (ex, w')"
  shows "view w' = view w \<and> set ex \<subseteq> set (ids_of (view w))"
  using assms(2)
  by (auto simp: find_existing_in_db_def split: if_splits prod.splits sum.splits
      dest!: law_open [OF assms(1)] law_query [OF assms(1)])

lemma insert_batch_law:
  assumes law: "customers_law db conn view"
    and run: "insert_batch db conn records documents embeddings w = (r, w')"
  shows "ids_of (view w') = ids_of (view w) @
    (if is_ok r then filter (\<lambda>k. k \<notin> set (ids_of (view w))) (map (\<lambda>(name, city, k). k) records) else [])"
proof -
  have calls: "ids_of (view w2) = ids_of (view w1) @
      (if is_ok r then filter (\<lambda>k. k \<notin> set (ids_of (view w1))) (col_kunnr b) else [])"
    if "(case open_table db conn ''customers'' w1 of
           (Inr tbl, w') \<Rightarrow> merge_insert_new db tbl [''kunnr''] b w'
         | (Inl _, w') \<Rightarrow> create_table db conn ''customers'' b w') = (r, w2)" for b w1 w2 and r :: "unit result"
  proof -
    obtain ro wo where o: "open_table db conn ''customers'' w1 = (ro, wo)" by fastforce
    note vo = law_open [OF law o]
    show ?thesis
    proof (cases ro)
      case (Inl e)
      with that o have "create_table db conn ''customers'' b wo = (r, w2)" by simp
      from law_create [OF law this] vo show ?thesis by (auto simp: ids_of_def split: if_splits)
    next
      case (Inr tbl)
      with that o have "merge_insert_new db tbl [''kunnr''] b wo = (r, w2)" by simp
      from law_merge [OF law this] vo Inr show ?thesis by (auto simp: ids_of_def)
    qed
  qed
  show ?thesis
    using run calls unfolding insert_batch_def
    by (auto simp: Let_def io_err_def split: if_splits)
qed

text \<open>How a run may change the table: it appends new identifiers from \<open>K\<close>, none twice; a run that
  succeeds covers all of \<open>K\<close>.\<close>

definition grows :: "string set \<Rightarrow> bool \<Rightarrow> string list \<Rightarrow> string list \<Rightarrow> bool" where
  "grows K full before after \<longleftrightarrow>
     (distinct before \<longrightarrow> distinct after) \<and> prefix before after \<and> set after \<subseteq> set before \<union> K \<and>
     (full \<longrightarrow> K \<subseteq> set after)"

lemma grows_refl: "K \<subseteq> set ks \<or> \<not> c \<Longrightarrow> grows K c ks ks"
  by (auto simp: grows_def)

lemma grows_trans:
  "grows K True ks ks' \<Longrightarrow> grows L c ks' ks'' \<Longrightarrow> grows (K \<union> L) c ks ks''"
  by (auto simp: grows_def dest: set_mono_prefix intro: prefix_order.trans)

lemma grows_weaken: "grows K c ks ks' \<Longrightarrow> K \<subseteq> L \<Longrightarrow> grows L False ks ks'"
  by (auto simp: grows_def)

lemma grows_append:
  assumes "distinct new" "set new \<subseteq> K" "\<not> c \<or> K \<subseteq> set ks \<union> set new"
  shows "grows K c ks (ks @ filter (\<lambda>k. k \<notin> set ks) new)"
  using assms by (auto simp: grows_def)

lemma grows_covered:
  assumes "grows K c before after" "K \<subseteq> set before" "distinct before"
  shows "after = before"
proof -
  obtain more where "after = before @ more" using assms(1) by (auto simp: grows_def prefix_def)
  with assms have "distinct (before @ more)" "set more \<subseteq> set before" by (auto simp: grows_def)
  then have "more = []" by (cases more) auto
  with \<open>after = before @ more\<close> show ?thesis by simp
qed

lemma process_batch_grows:
  assumes law: "customers_law db conn view"
    and run: "process_current_batch db env m conn rows w = (r, w')"
  shows "grows (customer_id ` set rows) (is_ok r) (ids_of (view w)) (ids_of (view w'))"
proof -
  define ids_sql where "ids_sql = map (\<lambda>k. quote # k @ [quote]) (List.map_filter kunnr rows)"
  obtain ex w1 where find: "find_existing_in_db db conn ids_sql w = (ex, w1)" by fastforce
  have ex: "view w1 = view w" "set ex \<subseteq> set (ids_of (view w))"
    using find_existing_law [OF law find] by simp_all
  define sel where "sel = select_new ex {} rows"
  have ids: "distinct (map customer_id sel)" "set (map customer_id sel) = customer_id ` set rows - set ex"
    using select_new_ids [of ex "{}" rows] by (simp_all add: sel_def)
  show ?thesis
  proof (cases "sel = []")
    case True
    with run find have "r = Inr 0" "w' = w1"
      by (auto simp: process_current_batch_def Let_def simp flip: ids_sql_def sel_def)
    moreover have "customer_id ` set rows \<subseteq> set (ids_of (view w))" using True ids(2) ex(2) by auto
    ultimately show ?thesis using ex(1) by (simp add: grows_refl)
  next
    case False
    define docs where "docs = map customer_document sel"
    define recs where "recs = map (\<lambda>r. (or_unknown (name1 r), or_unknown (ort01 r), customer_id r)) sel"
    have recs: "map (\<lambda>(name, city, k). k) recs = map customer_id sel" by (simp add: recs_def)
    have go: "io_try (io_lift (get_embeddings env m docs)) (\<lambda>embs.
        io_try (insert_batch db conn recs docs embs) (\<lambda>_. io_ok (length docs))) w1 = (r, w')"
      using run find False
      by (simp add: process_current_batch_def Let_def docs_def recs_def flip: ids_sql_def sel_def)
    show ?thesis
    proof (cases "get_embeddings env m docs")
      case (Inl e)
      with go have "r = Inl e" "w' = w1" by (auto simp: io_lift_def io_try_def)
      then show ?thesis using ex(1) by (simp add: grows_refl)
    next
      case (Inr embs)
      obtain ri wi where ins: "insert_batch db conn recs docs embs w1 = (ri, wi)" by fastforce
      have r: "is_ok r = is_ok ri" "w' = wi"
        using go Inr ins by (auto simp: io_lift_def io_try_def io_ok_def split: sum.splits)
      have "ids_of (view wi) = ids_of (view w1) @
          (if is_ok ri then filter (\<lambda>k. k \<notin> set (ids_of (view w1))) (map customer_id sel) else [])"
        using insert_batch_law [OF law ins] recs by simp
      moreover have "grows (customer_id ` set rows) True (ids_of (view w))
          (ids_of (view w) @ filter (\<lambda>k. k \<notin> set (ids_of (view w))) (map customer_id sel))"
        using ids ex(2) by (intro grows_append) auto
      ultimately show ?thesis using r ex(1) by (auto intro: grows_refl)
    qed
  qed
qed

lemma csv_loop_grows:
  assumes law: "customers_law db conn view"
  shows "csv_loop db env m conn n items pending tot w = (r, w') \<Longrightarrow>
    grows (customer_id ` (set pending \<union> {row. Inr row \<in> set items})) (is_ok r)
      (ids_of (view w)) (ids_of (view w'))"
proof (induction items arbitrary: pending tot w)
  case Nil
  then show ?case
    by (auto simp: io_ok_def io_try_def grows_refl split: if_splits prod.splits sum.splits
        dest!: process_batch_grows [OF law])
next
  case (Cons item items)
  show ?case
  proof (cases item)
    case (Inl e)
    with Cons.prems show ?thesis by (auto simp: io_err_def intro: grows_refl)
  next
    case (Inr row)
    have split: "{row'. Inr row' \<in> set (item # items)} = insert row {row'. Inr row' \<in> set items}"
      using Inr by auto
    show ?thesis
    proof (cases "n \<le> length (pending @ [row])")
      case True
      obtain rb wb where b: "process_current_batch db env m conn (pending @ [row]) w = (rb, wb)"
        by fastforce
      note gb = process_batch_grows [OF law b]
      show ?thesis
      proof (cases rb)
        case (Inl e)
        with Cons.prems Inr True b have "r = Inl e" "w' = wb" by (auto simp: io_try_def)
        with gb Inl show ?thesis unfolding split by (auto elim!: grows_weaken)
      next
        case (Inr inserted)
        with Cons.prems \<open>item = Inr row\<close> True b
        have "csv_loop db env m conn n items [] (tot + inserted) wb = (r, w')" by (simp add: io_try_def)
        from Cons.IH [OF this] gb Inr
        have "grows (customer_id ` set (pending @ [row]) \<union> customer_id ` ({} \<union> {row'. Inr row' \<in> set items}))
            (is_ok r) (ids_of (view w)) (ids_of (view w'))"
          by (intro grows_trans) simp_all
        then show ?thesis unfolding split by (simp add: image_Un Un_commute insert_commute)
      qed
    next
      case False
      with Cons.prems Inr have "csv_loop db env m conn n items (pending @ [row]) tot w = (r, w')"
        by simp
      from Cons.IH [OF this] show ?thesis unfolding split by simp
    qed
  qed
qed

text \<open>The reference: the rows cut into pieces of the batch size, processed one after the other.\<close>

function row_chunks :: "nat \<Rightarrow> 'a list \<Rightarrow> 'a list list" where
  "row_chunks n rows = (if n = 0 \<or> rows = [] then [] else take n rows # row_chunks n (drop n rows))"
  by pat_completeness auto
termination
  by (relation "measure (\<lambda>(n, rows). length rows)") auto

declare row_chunks.simps [simp del]

fun run_batches ::
  "(kna1_row list \<Rightarrow> ('w, err, nat) io) \<Rightarrow> kna1_row list list \<Rightarrow> nat \<Rightarrow> ('w, err, nat) io" where
  "run_batches process [] tot = io_ok tot"
| "run_batches process (c # cs) tot = io_try (process c) (\<lambda>k. run_batches process cs (tot + k))"

lemma row_chunks_Nil [simp]: "row_chunks n [] = []"
  by (simp add: row_chunks.simps)

lemma row_chunks_split: "0 < n \<Longrightarrow> length xs = n \<Longrightarrow> row_chunks n (xs @ ys) = xs # row_chunks n ys"
  by (subst row_chunks.simps) auto

lemma row_chunks_short: "xs \<noteq> [] \<Longrightarrow> length xs < n \<Longrightarrow> row_chunks n xs = [xs]"
  by (subst row_chunks.simps) auto

lemma row_chunks_bounded: "c \<in> set (row_chunks n rows) \<Longrightarrow> c \<noteq> [] \<and> length c \<le> n"
proof (induction n rows rule: row_chunks.induct)
  case (1 n rows)
  then show ?case by (subst (asm) row_chunks.simps) (auto split: if_splits)
qed

lemma row_chunks_concat: "0 < n \<Longrightarrow> concat (row_chunks n rows) = rows"
proof (induction n rows rule: row_chunks.induct)
  case (1 n rows)
  then show ?case by (cases "rows = []") (auto simp: row_chunks.simps [of n rows])
qed

lemma csv_loop_chunks:
  assumes "0 < n"
  shows "length pending < n \<Longrightarrow>
    csv_loop db env m conn n (map Inr rows) pending tot =
      run_batches (process_current_batch db env m conn) (row_chunks n (pending @ rows)) tot"
proof (induction rows arbitrary: pending tot)
  case Nil
  then show ?case by (cases "pending = []") (simp_all add: row_chunks_short)
next
  case (Cons row rows)
  show ?case
  proof (cases "n \<le> length (pending @ [row])")
    case True
    then have "length (pending @ [row]) = n" using Cons.prems by simp
    from row_chunks_split [OF assms this, of rows] Cons.IH [of "[]"] assms True
    show ?thesis by simp
  next
    case False
    with Cons.IH [of "pending @ [row]"] show ?thesis by simp
  qed
qed

lemma csv_loop_bad_record:
  assumes "0 < n"
  shows "length pending < n \<Longrightarrow>
    csv_loop db env m conn n (map Inr rows @ Inl e # rest) pending tot =
      io_try (run_batches (process_current_batch db env m conn)
                (filter (\<lambda>c. length c = n) (row_chunks n (pending @ rows))) tot)
        (\<lambda>_. io_err (External e))"
proof (induction rows arbitrary: pending tot)
  case Nil
  then show ?case
    by (cases "pending = []") (auto simp: row_chunks_short io_try_def io_ok_def fun_eq_iff)
next
  case (Cons row rows)
  show ?case
  proof (cases "n \<le> length (pending @ [row])")
    case True
    then have "length (pending @ [row]) = n" using Cons.prems by simp
    from row_chunks_split [OF assms this, of rows] this Cons.IH [of "[]"] assms True
    show ?thesis by (simp add: io_try_def fun_eq_iff split: prod.split sum.split)
  next
    case False
    with Cons.IH [of "pending @ [row]"] show ?thesis by simp
  qed
qed

text \<open>The database in memory keeps the promises.\<close>

definition demo_view :: "demo_row list option \<Rightarrow> string list option" where
  "demo_view = map_option (map fst)"

lemma demo_rows_ids [simp]: "map fst (demo_rows b) = col_kunnr b"
  by (simp add: demo_rows_def comp_def map_nth)

lemma stream_ids_demo [simp]: "stream_ids [Inr (demo_batch rows)] = map fst rows"
  by (simp add: stream_ids_def demo_batch_def)

lemma filter_ids: "map fst (filter (\<lambda>r. fst r \<notin> S) rows) = filter (\<lambda>k. k \<notin> S) (map fst rows)"
  by (induction rows) auto

lemma demo_law: "customers_law demo_db () demo_view"
  unfolding customers_law_def
  by (auto simp: demo_db_def demo_view_def io_ok_def filter_ids split: option.splits if_splits)

definition demo_csv :: "(string + kna1_row) list" where
  "demo_csv = map (\<lambda>k. Inr \<lparr>kunnr = Some k, name1 = None, ort01 = None, land1 = None\<rparr>)
     [''1000'', ''3000'', ''3000'']"

definition demo_new :: kna1_row where
  "demo_new = \<lparr>kunnr = Some ''3000'', name1 = None, ort01 = None, land1 = None\<rparr>"

lemma demo_run:
  "\<exists>w'. process_csv_in_batches demo_db (\<lambda>_. None) zero_bert () 8 demo_csv demo_table = (Inr 1, w') \<and>
     ids_of (demo_view w') = [''1000'', ''2000'', ''3000'']"
proof -
  define rows where "rows = map (\<lambda>k. \<lparr>kunnr = Some k, name1 = None, ort01 = None, land1 = None\<rparr>)
     [''1000'', ''3000'', ''3000'']"
  have csv: "demo_csv = map Inr rows" by (simp add: demo_csv_def rows_def)
  have "process_csv_in_batches demo_db (\<lambda>_. None) zero_bert () 8 demo_csv =
      run_batches (process_current_batch demo_db (\<lambda>_. None) zero_bert ()) [rows] 0"
    unfolding process_csv_in_batches_def csv
    by (subst csv_loop_chunks) (simp_all add: row_chunks_short rows_def)
  moreover have find: "find_existing_in_db demo_db ()
      (map (\<lambda>k. quote # k @ [quote]) (List.map_filter kunnr rows)) demo_table = ([''1000''], demo_table)"
    unfolding rows_def by code_simp
  moreover have sel: "select_new [''1000''] {} rows = [demo_new]"
    unfolding rows_def by code_simp
  moreover have "get_embeddings (\<lambda>_. None) zero_bert [customer_document demo_new] =
      Inr [replicate 768 f32_zero]"
    using zero_bert_embeddings [of "[customer_document demo_new]"] by simp
  moreover have "\<exists>w'. insert_batch demo_db () [(or_unknown (name1 demo_new), or_unknown (ort01 demo_new),
        customer_id demo_new)] [customer_document demo_new] [replicate 768 f32_zero] demo_table = (Inr (), w') \<and>
      ids_of (demo_view w') = [''1000'', ''2000'', ''3000'']"
    by (simp add: insert_batch_def Let_def demo_db_def demo_table_def demo_view_def demo_rows_def ids_of_def
        customer_id_def demo_new_def or_unknown_def)
  ultimately show ?thesis
    by (auto simp: process_current_batch_def io_try_def io_ok_def io_lift_def Let_def)
qed

section \<open>Properties\<close>

text \<open>C16: Ingestion keeps the primary key: on a database that does what it documents, whatever the
  file holds and however the run ends, no identifier appears twice in the table, no row that was there
  is lost, and only identifiers of the file are added; a run that succeeds has every customer of the
  file in the table, each once.\<close>

theorem ingest_primary_key:
  assumes "customers_law db conn view"
    and "process_csv_in_batches db env m conn batch_size csv_reader w = (r, w')"
    and "distinct (ids_of (view w))"
  shows "distinct (ids_of (view w')) \<and> prefix (ids_of (view w)) (ids_of (view w')) \<and>
    set (ids_of (view w')) \<subseteq> set (ids_of (view w)) \<union> customer_id ` {row. Inr row \<in> set csv_reader} \<and>
    (is_ok r \<longrightarrow> customer_id ` {row. Inr row \<in> set csv_reader} \<subseteq> set (ids_of (view w')))"
  using csv_loop_grows [OF assms(1), of env m batch_size csv_reader "[]" 0 w r w'] assms(2,3)
  by (simp add: process_csv_in_batches_def grows_def)

theorem ingest_primary_key_witness:
  "\<exists>w'. process_csv_in_batches demo_db (\<lambda>_. None) zero_bert () 8 demo_csv demo_table = (Inr 1, w') \<and>
     ids_of (demo_view w') = [''1000'', ''2000'', ''3000''] \<and> distinct (ids_of (demo_view w'))"
proof -
  obtain w' where run: "process_csv_in_batches demo_db (\<lambda>_. None) zero_bert () 8 demo_csv demo_table =
      (Inr 1, w')" and ids: "ids_of (demo_view w') = [''1000'', ''2000'', ''3000'']"
    using demo_run by blast
  have "distinct (ids_of (demo_view demo_table))" by code_simp
  from ingest_primary_key [OF demo_law run this] run ids show ?thesis by blast
qed

text \<open>C33: Ingestion is idempotent: once a run over a file has succeeded, a later run over the same file,
  however it ends, leaves the identifiers of the table as they are.\<close>

theorem ingest_idempotent:
  assumes "customers_law db conn view" "distinct (ids_of (view w))"
    and "process_csv_in_batches db env m conn batch_size csv_reader w = (Inr n, w1)"
    and "view w2 = view w1"
    and "process_csv_in_batches db env' m' conn batch_size' csv_reader w2 = (r, w3)"
  shows "ids_of (view w3) = ids_of (view w2)"
proof -
  let ?K = "customer_id ` {row. Inr row \<in> set csv_reader}"
  have first: "grows ?K True (ids_of (view w)) (ids_of (view w1))"
    and second: "grows ?K (is_ok r) (ids_of (view w2)) (ids_of (view w3))"
    using csv_loop_grows [OF assms(1)] assms(3,5) unfolding process_csv_in_batches_def by force+
  then show ?thesis
    using assms(2,4) by (intro grows_covered [OF second]) (simp_all add: grows_def)
qed

theorem ingest_idempotent_witness:
  "\<exists>w1. process_csv_in_batches demo_db (\<lambda>_. None) zero_bert () 8 demo_csv demo_table = (Inr 1, w1) \<and>
     ids_of (demo_view (snd (process_csv_in_batches demo_db (\<lambda>_. None) zero_bert () 3 demo_csv w1))) =
       [''1000'', ''2000'', ''3000'']"
proof -
  obtain w1 where run: "process_csv_in_batches demo_db (\<lambda>_. None) zero_bert () 8 demo_csv demo_table =
      (Inr 1, w1)" and ids: "ids_of (demo_view w1) = [''1000'', ''2000'', ''3000'']"
    using demo_run by blast
  have "distinct (ids_of (demo_view demo_table))" by code_simp
  from ingest_idempotent [OF demo_law this run refl prod.collapse [symmetric]] run ids
  show ?thesis by (intro exI [of _ w1]) simp
qed

text \<open>The loop over the reader processes the rows in consecutive pieces of the batch size, the
  last possibly shorter, none empty, in order and stopping at the first error, and returns the sum of
  the counts; a record that cannot be read ends it after the full pieces before it, and the rows of the
  unfinished piece are dropped.\<close>

theorem csv_in_batches:
  assumes "0 < batch_size"
  shows "process_csv_in_batches db env m conn batch_size (map Inr rows) =
      run_batches (process_current_batch db env m conn) (row_chunks batch_size rows) 0 \<and>
    process_csv_in_batches db env m conn batch_size (map Inr rows @ Inl e # rest) =
      io_try (run_batches (process_current_batch db env m conn)
                (filter (\<lambda>c. length c = batch_size) (row_chunks batch_size rows)) 0)
        (\<lambda>_. io_err (External e)) \<and>
    concat (row_chunks batch_size rows) = rows \<and>
    (\<forall>c \<in> set (row_chunks batch_size rows). c \<noteq> [] \<and> length c \<le> batch_size)"
proof (intro conjI ballI)
  show "concat (row_chunks batch_size rows) = rows" using assms by (rule row_chunks_concat)
qed (use assms in \<open>simp_all add: process_csv_in_batches_def csv_loop_chunks csv_loop_bad_record
    row_chunks_bounded\<close>)

theorem csv_in_batches_witness:
  "process_csv_in_batches demo_db (\<lambda>_. None) zero_bert () 2
      (map Inr [] @ Inl ''CSV error'' # []) demo_table = (Inl (External ''CSV error''), demo_table)"
proof -
  have "(0 :: nat) < 2" by simp
  from csv_in_batches [OF this, of demo_db "\<lambda>_. None" zero_bert "()" "[]" "''CSV error''" "[]"]
  show ?thesis by (simp add: io_try_def io_ok_def io_err_def)
qed

text \<open>The order of the ingest command: an unusable batch size is refused before anything is touched;
  with \<open>overwrite\<close> the table is dropped before the file is opened, so a file that cannot be opened
  leaves the database without its customers.\<close>

theorem overwrite_before_open:
  assumes "connect db uri w = (Inr conn, w1)" "open_csv path = Inl e"
    and "env_usize env ''MAX_EMBEDDING_BATCH_SIZE'' 1024 = limit"
  shows "execute_ingestion db env m open_csv path uri True n w =
    (if n = 0 \<or> limit < n then (Inl (BadBatchSize limit n), w)
     else (Inl (FileLoad e), snd (drop_table db conn ''customers'' w1)))"
  using assms by (simp add: execute_ingestion_def io_simps)

theorem overwrite_before_open_witness:
  "execute_ingestion demo_db (\<lambda>_. None) zero_bert (\<lambda>_. Inl ''no such file'') ''x.csv'' ''db'' True 256 demo_table =
     (Inl (FileLoad ''no such file''), None)"
proof -
  have "connect demo_db ''db'' demo_table = (Inr (), demo_table)"
    by (simp add: demo_db_def io_ok_def)
  from overwrite_before_open [where open_csv = "\<lambda>_. Inl ''no such file''", OF this refl,
      where env = "\<lambda>_. None" and n = 256, OF refl]
  show ?thesis by (simp add: env_usize_def demo_db_def)
qed

end
