(* ===== verification/Cli.thy ===== *)
theory Cli
  imports Http Ingest
begin

text \<open>
  \<open>src/gateway/cli.rs\<close>, the dispatcher of \<open>src/gateway/mod.rs\<close> and \<open>main.rs\<close>: the commands, where their
  queries come from, what each of them runs, and the exit code. Standard input is the list of the lines
  \<open>lines()\<close> yields; standard output and standard error are writers over the outside.
\<close>

section \<open>Commands\<close>

datatype command =
    Ingest (ingest_file: string) (ingest_overwrite: bool) (ingest_batch_size: nat)
  | Ask "string option"
  | Ask_Semantic "string option"
  | Execute_Sql "string option"
  | Ask_Ai_Sql "string option"
  | Health
  | Serve (serve_host: string) (serve_port: "16 word") (serve_grpc_port: "16 word")

record std_input =
  is_terminal :: bool
  stdin_lines :: "(string + string) list"

definition resolve_query_inputs :: "std_input \<Rightarrow> string option \<Rightarrow> (err + string) list result" where
  "resolve_query_inputs input cli_arg =
     (case cli_arg of
        Some q \<Rightarrow>
          (let trimmed = trim q in if trimmed = [] then Inl EmptyQueryArg else Inr [Inr trimmed])
      | None \<Rightarrow>
          if is_terminal input then Inl NoQueryProvided
          else Inr (List.map_filter (\<lambda>res. case res of
                      Inr line \<Rightarrow>
                        (let trimmed = trim line in if trimmed = [] then None else Some (Inr trimmed))
                    | Inl e \<Rightarrow> Some (Inl (StdinRead e))) (stdin_lines input)))"

section \<open>The program\<close>

text \<open>What the dispatcher reaches: the crates of \<open>app_state\<close> in \<open>base\<close>; the files and the network the
  loaders work on as a part of the outside; \<open>bert_of\<close> makes the loaded model and tokenizer callable;
  \<open>serve_dual\<close> is the outcome of \<open>start_dual_server\<close>, whose steps are the matter of \<open>Lifecycle\<close>.\<close>

record ('w, 'q, 'o, 'p, 'b, 'conn, 'tbl, 'res, 'enc, 'j, 'net, 'cfg, 'tok, 'vb, 'mdl, 'addr) program =
  base :: "('w, 'q, 'o, 'p, 'b, 'conn, 'tbl, 'res, 'enc, 'j) app_state"
  fetch :: "'net http_get"
  loaders :: "('cfg, 'tok, 'vb, 'mdl) model_crates"
  host_of :: "'w \<Rightarrow> 'net host"
  set_host :: "'net host \<Rightarrow> 'w \<Rightarrow> 'w"
  bert_of :: "'mdl \<times> 'tok \<Rightarrow> bert"
  csv_file :: "string \<Rightarrow> string + (string + kna1_row) list"
  input :: std_input
  stdout :: "string \<Rightarrow> ('w, err, unit) io"
  stderr :: "string \<Rightarrow> ('w, err, unit) io"
  result_to_string :: "semantic_query_result \<Rightarrow> string + string"
  report_to_string :: "health_response \<Rightarrow> string + string"
  parse_addr :: "string \<Rightarrow> string + 'addr"
  serve_dual :: "('w, 'q, 'o, 'p, 'b, 'conn, 'tbl, 'res, 'enc, 'j) app_state \<Rightarrow> semantic_cache
    \<Rightarrow> 'addr \<Rightarrow> 'addr \<Rightarrow> ('w, err, unit) io"

text \<open>\<open>println!\<close> panics when standard output cannot be written.\<close>

definition println where
  "println prog text =
     io_map_err (\<lambda>e. Panic (''failed printing to stdout: '' @ display e)) (stdout prog (text @ [nl]))"

definition print_json where
  "print_json prog to_string value =
     io_try (io_lift (map_err External (to_string value))) (println prog)"

definition load_bert where
  "load_bert prog w =
     (case load_model (fetch prog) (loaders prog) (environment (base prog)) (host_of prog w) of
        (r, h) \<Rightarrow> (r, set_host prog h w))"

text \<open>\<open>AppState::new\<close> over a loaded model.\<close>

definition new_app_state where
  "new_app_state s m = app_limits (s\<lparr>embedding_model := m\<rparr>)"

text \<open>\<open>for q_res in queries { let q = q_res?; .. }\<close> with the loop's own state.\<close>

fun for_queries :: "('s \<Rightarrow> string \<Rightarrow> ('w, err, 's) io) \<Rightarrow> (err + string) list \<Rightarrow> 's \<Rightarrow> ('w, err, 's) io" where
  "for_queries step [] st = io_ok st"
| "for_queries step (Inl e # queries) st = io_err e"
| "for_queries step (Inr q # queries) st = io_try (step st q) (for_queries step queries)"

definition semantic_step where
  "semantic_step prog s c q w =
     (case run_semantic_pipeline s q (c, w) of
        (Inl e, (c1, w1)) \<Rightarrow> (Inl e, w1)
      | (Inr res, (c1, w1)) \<Rightarrow>
          io_try (print_json prog (result_to_string prog) res) (\<lambda>_. io_ok c1) w1)"

text \<open>The router's semantic branch: a fresh \<open>AppState\<close> for every query.\<close>

definition answer_fresh where
  "answer_fresh prog s m q =
     (case new_app_state s (bert_of prog m) of (s1, c) \<Rightarrow>
        io_try (semantic_step prog s1 c q) (\<lambda>_. io_ok ()))"

definition write_batches where
  "write_batches prog s batches = write_record_batches_as_json_lines (json_writer s) (stdout prog) batches"

definition with_bundle where
  "with_bundle prog bundle k =
     (case bundle of Some m \<Rightarrow> k m | None \<Rightarrow> io_try (load_bert prog) k)"

text \<open>The state of the \<open>Ask\<close> loop: whether the SQL session is up, and the loaded model.\<close>

definition ask_semantic_branch where
  "ask_semantic_branch prog s sql_engine_up bundle q =
     with_bundle prog bundle (\<lambda>m.
       io_try (answer_fresh prog s m q) (\<lambda>_. io_ok (sql_engine_up, Some m)))"

definition ask_sql_branch where
  "ask_sql_branch prog s sql_engine_up bundle q =
     io_try (if sql_engine_up then io_ok () else init_datafusion (sql_engine s) (environment s)) (\<lambda>_.
     io_try (run_sql_query s q) (\<lambda>batches.
     io_try (write_batches prog s batches) (\<lambda>_.
     io_ok (True, bundle))))"

definition ask_step where
  "ask_step prog s = (\<lambda>(sql_engine_up, bundle) q w.
     case ask_model s (build_routing_prompt q) w of
       (Inr raw_json, w1) \<Rightarrow>
         (let decision = (case parse_llm_json (route_from_str s) raw_json of
                            Inr d \<Rightarrow> d | Inl _ \<Rightarrow> \<lparr>route = ''SEMANTIC''\<rparr>)
          in if route decision = ''SQL'' then ask_sql_branch prog s sql_engine_up bundle q w1
             else ask_semantic_branch prog s sql_engine_up bundle q w1)
     | (Inl _, w1) \<Rightarrow> ask_semantic_branch prog s sql_engine_up bundle q w1)"

definition execute_sql_step where
  "execute_sql_step prog s st q =
     io_try (execute_sql_query (sql_parser s) (sql_engine s) (environment s) q) (write_batches prog s)"

definition ask_ai_sql_step where
  "ask_ai_sql_step prog s st q = io_try (run_sql_query s q) (write_batches prog s)"

definition health_report where
  "health_report s w =
     (let (llm_online, w1) = is_healthy (llm_http s) (llm_client s) w;
          (lancedb_stats, w2) = check_lancedb_health (database s) (vector_db_uri s) w1;
          (connected, total) = (case lancedb_stats of Inr n \<Rightarrow> (True, n) | Inl _ \<Rightarrow> (False, 0));
          (indexed, w3) = is_vector_indexed (database s) (vector_db_uri s) w2;
          st = (if llm_online \<and> connected then ''healthy''
                else if connected then ''degraded'' else ''unhealthy'')
      in (\<lparr>status = st, llm_connected = llm_online, vector_db_connected = connected,
           total_records = total,
           vector_indexed = (case indexed of Inr b \<Rightarrow> b | Inl _ \<Rightarrow> False),
           cache_entries = 0\<rparr>, w3))"

definition serve_command where
  "serve_command prog s host port grpc_port =
     io_try (io_lift (map_err External (parse_addr prog (host @ '':'' @ show_nat (unat port))))) (\<lambda>http_addr.
     io_try (io_lift (map_err External (parse_addr prog (host @ '':'' @ show_nat (unat grpc_port))))) (\<lambda>grpc_addr.
     io_try (load_bert prog) (\<lambda>m.
     io_try (init_datafusion (sql_engine s) (environment s)) (\<lambda>_.
     case new_app_state s (bert_of prog m) of (s1, c) \<Rightarrow> serve_dual prog s1 c http_addr grpc_addr))))"

definition dispatch where
  "dispatch prog s cmd =
     (let queries = resolve_query_inputs (input prog) in
      case cmd of
        Ingest file overwrite batch_size \<Rightarrow>
          io_try (load_bert prog) (\<lambda>m.
          execute_ingestion (database s) (environment s) (bert_of prog m) (csv_file prog)
            file (vector_db_uri s) overwrite batch_size)
      | Ask_Semantic query \<Rightarrow>
          io_try (load_bert prog) (\<lambda>m.
          case new_app_state s (bert_of prog m) of (s1, c) \<Rightarrow>
            io_try (io_lift (queries query)) (\<lambda>qs.
            io_try (for_queries (semantic_step prog s1) qs c) (\<lambda>_. io_ok ())))
      | Ask query \<Rightarrow>
          io_try (io_lift (queries query)) (\<lambda>qs.
          io_try (for_queries (ask_step prog s) qs (False, None)) (\<lambda>_. io_ok ()))
      | Execute_Sql query \<Rightarrow>
          io_try (io_lift (queries query)) (\<lambda>qs.
          io_try (init_datafusion (sql_engine s) (environment s)) (\<lambda>_.
          for_queries (execute_sql_step prog s) qs ()))
      | Ask_Ai_Sql query \<Rightarrow>
          io_try (io_lift (queries query)) (\<lambda>qs.
          io_try (init_datafusion (sql_engine s) (environment s)) (\<lambda>_.
          for_queries (ask_ai_sql_step prog s) qs ()))
      | Health \<Rightarrow>
          (\<lambda>w. case health_report s w of (report, w1) \<Rightarrow>
             print_json prog (report_to_string prog) report w1)
      | Serve host port grpc_port \<Rightarrow> serve_command prog s host port grpc_port)"

definition run where
  "run prog cmd =
     (let env = environment (base prog) in
      io_try (io_lift (init_from_env_or_default (llm_http (base prog)) env)) (\<lambda>client.
      dispatch prog ((base prog)\<lparr>llm_client := client,
        vector_db_uri := env_string env ''VECTOR_DB_URI'' ''data/sap_vectors''\<rparr>) cmd))"

text \<open>\<open>main\<close>: the exit code. A panic, also of \<open>eprintln!\<close>, ends the process with 101.\<close>

definition main_program where
  "main_program prog cmd w =
     (case run prog cmd w of
        (Inr _, w1) \<Rightarrow> (0 :: nat, w1)
      | (Inl (Panic m), w1) \<Rightarrow> (101, w1)
      | (Inl e, w1) \<Rightarrow>
          (case stderr prog (''Execution error: '' @ display e @ [nl]) w1 of
             (Inl _, w2) \<Rightarrow> (101, w2)
           | (Inr _, w2) \<Rightarrow> (1, w2)))"

section \<open>Facts\<close>

text \<open>A query as the commands rely on it.\<close>

definition clean_query :: "string \<Rightarrow> bool" where
  "clean_query q \<longleftrightarrow> q \<noteq> [] \<and> trim q = q"

lemma clean_trim: "trim q \<noteq> [] \<Longrightarrow> clean_query (trim q)"
  by (simp add: clean_query_def trim_trim)

lemma map_filter_append: "List.map_filter f (xs @ ys) = List.map_filter f xs @ List.map_filter f ys"
  by (simp add: List.map_filter_def)

lemma for_queries_append:
  "for_queries step (qs1 @ qs2) st = io_try (for_queries step qs1 st) (for_queries step qs2)"
proof (induction step qs1 st rule: for_queries.induct)
  case (3 step q queries st)
  then show ?case
    by (auto simp: io_try_def fun_eq_iff split: prod.split sum.split)
qed (auto simp: io_simps)

text \<open>The semantic pipeline does not look at the SQL engine.\<close>

lemma stages_ignore_engine:
  "absence_proof (s\<lparr>sql_engine := e\<rparr>) q parsed = absence_proof s q parsed"
  "store_and_return (s\<lparr>sql_engine := e\<rparr>) q v = store_and_return s q v"
  "retrieve_chunks (s\<lparr>sql_engine := e\<rparr>) parsed v = retrieve_chunks s parsed v"
  "rerank_stage (s\<lparr>sql_engine := e\<rparr>) q = rerank_stage s q"
  "ask_model (s\<lparr>sql_engine := e\<rparr>) = ask_model s"
  by (simp_all add: fun_eq_iff absence_proof_def store_and_return_def retrieve_chunks_def
      rerank_stage_def ask_model_def Let_def
      cong: option.case_cong prod.case_cong sum.case_cong if_cong)

lemma generate_ignores_engine:
  "generate_answer (s\<lparr>sql_engine := e\<rparr>) q parsed v cs = generate_answer s q parsed v cs"
  by (simp add: generate_answer_def stages_ignore_engine cong: prod.case_cong sum.case_cong if_cong)

lemma semantic_ignores_engine: "run_semantic_pipeline (s\<lparr>sql_engine := e\<rparr>) q = run_semantic_pipeline s q"
  by (simp add: run_semantic_pipeline_def parse_and_answer_def embed_and_look_def search_and_answer_def
      generate_ignores_engine stages_ignore_engine
      cong: prod.case_cong sum.case_cong option.case_cong list.case_cong)

lemma loop_ignores_loaders:
  "answer_fresh (prog\<lparr>fetch := get', loaders := crates'\<rparr>) (s\<lparr>sql_engine := e\<rparr>) m q = answer_fresh prog s m q"
  "write_batches (prog\<lparr>fetch := get', loaders := crates'\<rparr>) (s\<lparr>sql_engine := e\<rparr>) = write_batches prog s"
proof -
  have line: "println (prog\<lparr>fetch := get', loaders := crates'\<rparr>) = println prog"
    by (simp add: fun_eq_iff println_def)
  have step: "semantic_step (prog\<lparr>fetch := get', loaders := crates'\<rparr>) (s'\<lparr>sql_engine := e\<rparr>) = semantic_step prog s'"
    for s'
    by (simp add: fun_eq_iff semantic_step_def semantic_ignores_engine print_json_def line
        cong: prod.case_cong sum.case_cong)
  have new: "new_app_state (s\<lparr>sql_engine := e\<rparr>) b =
      (case new_app_state s b of (s1, c) \<Rightarrow> (s1\<lparr>sql_engine := e\<rparr>, c))" for b
    by (simp add: new_app_state_def app_limits_def Let_def)
  show "answer_fresh (prog\<lparr>fetch := get', loaders := crates'\<rparr>) (s\<lparr>sql_engine := e\<rparr>) m q = answer_fresh prog s m q"
    by (simp add: answer_fresh_def new step split: prod.split)
  show "write_batches (prog\<lparr>fetch := get', loaders := crates'\<rparr>) (s\<lparr>sql_engine := e\<rparr>) = write_batches prog s"
    by (simp add: fun_eq_iff write_batches_def)
qed

lemma sql_ignores_registration:
  "run_sql_query (s\<lparr>sql_engine := (sql_engine s)\<lparr>register_csv := reg'\<rparr>\<rparr>) q = run_sql_query s q"
  by (simp add: fun_eq_iff run_sql_query_def stages_ignore_engine execute_sql_query_def
      cong: prod.case_cong sum.case_cong)

lemma ask_loop_warm:
  "for_queries (ask_step (prog\<lparr>fetch := get', loaders := crates'\<rparr>)
       (s\<lparr>sql_engine := (sql_engine s)\<lparr>register_csv := reg'\<rparr>\<rparr>)) qs (True, Some m) w =
     for_queries (ask_step prog s) qs (True, Some m) w \<and>
   (\<forall>st w'. for_queries (ask_step prog s) qs (True, Some m) w = (Inr st, w') \<longrightarrow> st = (True, Some m))"
proof -
  let ?s = "s\<lparr>sql_engine := (sql_engine s)\<lparr>register_csv := reg'\<rparr>\<rparr>"
    and ?prog = "prog\<lparr>fetch := get', loaders := crates'\<rparr>"
  have same: "ask_step ?prog ?s (True, Some m) q w = ask_step prog s (True, Some m) q w" for q w
    by (simp add: ask_step_def ask_sql_branch_def ask_semantic_branch_def with_bundle_def
        loop_ignores_loaders sql_ignores_registration stages_ignore_engine Let_def
        cong: if_cong prod.case_cong sum.case_cong)
  have stays: "st = (True, Some m)" if "ask_step prog s (True, Some m) q w = (Inr st, w')" for q w st w'
    using that
    by (auto simp: ask_step_def ask_sql_branch_def ask_semantic_branch_def with_bundle_def Let_def
        result_simps io_ok_def split: prod.splits sum.splits if_splits)
  show ?thesis
  proof (induction qs arbitrary: w)
    case Nil
    then show ?case by (simp add: io_ok_def)
  next
    case (Cons a qs)
    show ?case
    proof (cases a)
      case (Inl e)
      then show ?thesis by (simp add: io_err_def)
    next
      case (Inr q)
      obtain r w1 where step: "ask_step prog s (True, Some m) q w = (r, w1)" by (metis surj_pair)
      have "r = Inr st \<Longrightarrow> st = (True, Some m)" for st using stays step by blast
      with Inr Cons [of w1] step same [of q w] show ?thesis
        by (cases r) (auto simp: io_try_def)
    qed
  qed
qed

text \<open>What has been printed, as a view of the outside: a write that succeeds appends its text, one that
  fails appends nothing or a part of it.\<close>

definition appends :: "('w \<Rightarrow> string) \<Rightarrow> (string \<Rightarrow> ('w, err, unit) io) \<Rightarrow> bool" where
  "appends printed write_all \<longleftrightarrow> (\<forall>text w r w'. write_all text w = (r, w') \<longrightarrow>
     (if is_ok r then printed w' = printed w @ text else prefix (printed w) (printed w')))"

lemma json_lines_append: "json_lines (xs @ ys) = json_lines xs @ json_lines ys"
  by (simp add: json_lines_def)

lemma write_batches_prints:
  assumes "appends printed write_all" "\<forall>b. encode_rows arr b = Inr (rows b)"
    and "write_record_batches_as_json_lines arr write_all bs w = (r, w')"
  shows "if is_ok r then printed w' = printed w @ json_lines (concat (map rows bs))
    else prefix (printed w) (printed w')"
  using assms(3)
proof (induction bs arbitrary: w)
  case Nil
  then show ?case by (auto simp: io_ok_def json_lines_def)
next
  case (Cons b bs)
  obtain r1 w1 where one: "write_all (json_lines (rows b)) w = (r1, w1)" by (metis surj_pair)
  note p = assms(1) [unfolded appends_def, rule_format, OF one]
  show ?case
  proof (cases r1)
    case (Inl e)
    with Cons.prems one assms(2) p show ?thesis by (auto simp: io_simps)
  next
    case (Inr u)
    with Cons.prems one assms(2) have "write_record_batches_as_json_lines arr write_all bs w1 = (r, w')"
      by (simp add: io_simps)
    from Cons.IH [OF this] p Inr show ?thesis
      by (auto simp: json_lines_append dest: append_prefixD)
  qed
qed

text \<open>The batches a query gave at some point.\<close>

definition sql_answer where
  "sql_answer s query bs \<longleftrightarrow> (\<exists>parsed. sql_parser s query = Inr [Query parsed]) \<and>
     (\<exists>w w'. execute_sql_query (sql_parser s) (sql_engine s) (environment s) query w = (Inr bs, w'))"

text \<open>One query: it fails with no more than a beginning printed, or its rows are printed.\<close>

lemma sql_step_prints:
  assumes out: "appends printed (stdout prog)" and enc: "\<forall>b. encode_rows (json_writer s) b = Inr (rows b)"
    and quiet: "\<forall>q w r w'. execute_sql_query (sql_parser s) (sql_engine s) (environment s) q w = (r, w') \<longrightarrow>
      printed w' = printed w"
    and run: "execute_sql_step prog s st q w = (r, w')"
  obtains e where "r = Inl e" "prefix (printed w) (printed w')"
  | bs u where "r = Inr u" "sql_answer s q bs" "printed w' = printed w @ json_lines (concat (map rows bs))"
proof -
  obtain rq wq where exec: "execute_sql_query (sql_parser s) (sql_engine s) (environment s) q w = (rq, wq)"
    by (metis surj_pair)
  have same: "printed wq = printed w" using quiet exec by blast
  show ?thesis
  proof (cases rq)
    case (Inl e)
    with run exec same show ?thesis by (intro that(1) [of e]) (auto simp: execute_sql_step_def io_try_def)
  next
    case (Inr bs)
    have answer: "sql_answer s q bs"
      unfolding sql_answer_def
      using exec [unfolded Inr] execute_ok_validated [OF exec [unfolded Inr], unfolded validate_ok_iff]
      by (intro conjI exI [of _ w] exI [of _ wq]) simp_all
    have print: "write_batches prog s bs wq = (r, w')"
      using run exec Inr by (simp add: execute_sql_step_def io_try_def)
    note printed = write_batches_prints [OF out enc print [unfolded write_batches_def]]
    show ?thesis using printed same answer that by (cases r) simp_all
  qed
qed

lemma sql_loop_prints:
  assumes laws: "appends printed (stdout prog)" "\<forall>b. encode_rows (json_writer s) b = Inr (rows b)"
      "\<forall>q w r w'. execute_sql_query (sql_parser s) (sql_engine s) (environment s) q w = (r, w') \<longrightarrow>
        printed w' = printed w"
    and run: "for_queries (execute_sql_step prog s) qs st w = (r, w')"
  shows "\<exists>results. list_all2 (\<lambda>q bs. \<exists>text. q = Inr text \<and> sql_answer s text bs) (take (length results) qs) results \<and>
    prefix (printed w @ json_lines (concat (map rows (concat results)))) (printed w') \<and>
    (is_ok r \<longrightarrow> length results = length qs \<and>
       printed w' = printed w @ json_lines (concat (map rows (concat results))))"
  using run
proof (induction qs arbitrary: st w)
  case Nil
  then show ?case by (intro exI [of _ "[]"]) (auto simp: io_ok_def json_lines_def)
next
  case (Cons item qs)
  have stop: ?case if "prefix (printed w) (printed w')" "\<not> is_ok r"
    using that by (intro exI [of _ "[]"]) (auto simp: json_lines_def)
  show ?case
  proof (cases item)
    case (Inl e)
    with Cons.prems show ?thesis by (intro stop) (auto simp: io_err_def)
  next
    case (Inr q)
    obtain rp wp where step: "execute_sql_step prog s st q w = (rp, wp)" by (metis surj_pair)
    from laws step show ?thesis
    proof (cases rule: sql_step_prints)
      case (1 e)
      with Cons.prems Inr step show ?thesis by (intro stop) (auto simp: io_try_def)
    next
      case (2 bs u)
      then have "for_queries (execute_sql_step prog s) qs u wp = (r, w')"
        using Cons.prems Inr step by (simp add: io_try_def)
      from Cons.IH [OF this] obtain results where rest:
        "list_all2 (\<lambda>q bs. \<exists>text. q = Inr text \<and> sql_answer s text bs) (take (length results) qs) results"
        "prefix (printed wp @ json_lines (concat (map rows (concat results)))) (printed w')"
        "is_ok r \<longrightarrow> length results = length qs \<and>
           printed w' = printed wp @ json_lines (concat (map rows (concat results)))"
        by blast
      have now: "printed w @ json_lines (concat (map rows (concat (bs # results)))) =
          printed wp @ json_lines (concat (map rows (concat results)))"
        using 2(3) by (simp add: json_lines_append)
      show ?thesis unfolding Inr
        by (rule exI [of _ "bs # results"], unfold now) (use rest 2(2) in simp)
    qed
  qed
qed

section \<open>Properties\<close>


text \<open>A console for the demo: what is printed is kept as a row of the table.\<close>

definition demo_console :: "string \<Rightarrow> (demo_row list option, err, unit) io" where
  "demo_console line w = (Inr (), Some ((case w of None \<Rightarrow> [] | Some rows \<Rightarrow> rows) @ [(line, [], [], [])]))"

definition demo_printed :: "demo_row list option \<Rightarrow> string" where
  "demo_printed w = (case w of None \<Rightarrow> [] | Some rows \<Rightarrow> concat (map fst rows))"

definition demo_program where
  "demo_program = \<lparr>base = demo_app (\<lambda>_. Inl ''down''), fetch = (\<lambda>_ n. (Inl ''offline'', n)),
     loaders = toy_crates, host_of = (\<lambda>_. empty_host), set_host = (\<lambda>_ w. w), bert_of = (\<lambda>_. toy_bert),
     csv_file = (\<lambda>_. Inl ''no file''), input = \<lparr>is_terminal = True, stdin_lines = []\<rparr>,
     stdout = demo_console, stderr = demo_console, result_to_string = (\<lambda>_. Inl ''unsupported''),
     report_to_string = (\<lambda>_. Inl ''unsupported''), parse_addr = (\<lambda>a. Inr a),
     serve_dual = (\<lambda>_ _ _ _. io_ok ())\<rparr>"

lemma demo_sql:
  "execute_sql_query (sql_parser (base demo_program)) (sql_engine (base demo_program))
     (environment (base demo_program)) q w =
     (if prefix ''SELECT'' q then (Inr [[''0'', ''1'']], w) else (Inl NotASelect, w))"
proof -
  have "max_sql_rows (\<lambda>_. None) = 10000" by (simp add: max_sql_rows_def env_usize_def)
  moreover have "map show_nat [0, 1] = [''0'', ''1'']" by code_simp
  ultimately show ?thesis
    by (simp add: execute_sql_query_def demo_program_def demo_app_def toy_parser_def io_simps validate_sql_is_safe_def)
qed

lemma demo_prints: "appends demo_printed demo_console"
  by (auto simp: appends_def demo_console_def demo_printed_def split: option.splits)


text \<open>The exit code tells the outcome: zero exactly when the command succeeded, 101 for a panic, and
  otherwise one, the error being on standard error.\<close>

theorem main_exit_code:
  assumes "\<forall>text w. is_ok (fst (stderr prog text w))"
  shows "case run prog cmd w of (r, w1) \<Rightarrow>
    (fst (main_program prog cmd w) = 0) = is_ok r \<and>
    (\<forall>e. r = Inl e \<longrightarrow> (if \<exists>m. e = Panic m then main_program prog cmd w = (101, w1)
       else main_program prog cmd w = (1, snd (stderr prog (''Execution error: '' @ display e @ [nl]) w1))))"
proof -
  have ok: "\<exists>u w2. stderr prog m w' = (Inr u, w2)" for m w'
    using assms by (metis is_ok.simps(1) prod.collapse sum.exhaust_sel)
  obtain r w1 where run: "run prog cmd w = (r, w1)" by (metis surj_pair)
  show ?thesis
  proof (cases r)
    case (Inl e)
    obtain u w2 where "stderr prog (''Execution error: '' @ display e @ [nl]) w1 = (Inr u, w2)" using ok by blast
    with run Inl show ?thesis by (cases e) (simp_all add: main_program_def)
  next
    case (Inr u)
    with run show ?thesis by (simp add: main_program_def)
  qed
qed

text \<open>C34: Every query a command runs is trimmed and not empty, wherever it comes from, and none is lost
  or reordered: the queries read from standard input are exactly its non-blank lines, trimmed, in
  order, an unreadable line being an error in its place.\<close>

theorem cli_queries_wellformed:
  assumes "resolve_query_inputs inp arg = Inr qs"
  shows "(\<forall>q. Inr q \<in> set qs \<longrightarrow> clean_query q) \<and>
    (case arg of
       Some a \<Rightarrow> qs = [Inr (trim a)]
     | None \<Rightarrow> qs = map (map_sum StdinRead trim)
         (filter (\<lambda>l. case l of Inl _ \<Rightarrow> True | Inr line \<Rightarrow> trim line \<noteq> []) (stdin_lines inp)))"
proof (cases arg)
  case (Some a)
  with assms show ?thesis
    by (auto simp: resolve_query_inputs_def Let_def clean_trim split: if_splits)
next
  case None
  let ?f = "\<lambda>res. case res of
      Inr line \<Rightarrow> (let trimmed = trim line in if trimmed = [] then None else Some (Inr trimmed))
    | Inl e \<Rightarrow> Some (Inl (StdinRead e) :: err + string)"
  have eq: "List.map_filter ?f ls = map (map_sum StdinRead trim)
      (filter (\<lambda>l. case l of Inl _ \<Rightarrow> True | Inr line \<Rightarrow> trim line \<noteq> []) ls)" for ls
    by (induction ls) (auto simp: List.map_filter_def Let_def split: sum.splits if_splits)
  have qs: "qs = List.map_filter ?f (stdin_lines inp)"
    using assms None by (auto simp: resolve_query_inputs_def split: if_splits)
  have "clean_query q" if "Inr q \<in> set qs" for q
    using that by (auto simp: qs eq clean_trim map_sum_def split: sum.splits)
  then show ?thesis using None qs eq by auto
qed

theorem cli_queries_wellformed_witness:
  "resolve_query_inputs \<lparr>is_terminal = False, stdin_lines = [Inr '' a '', Inr '' '', Inl ''e'', Inr ''b'']\<rparr> None =
     Inr [Inr ''a'', Inl (StdinRead ''e''), Inr ''b''] \<and> clean_query ''a''"
proof -
  have run: "resolve_query_inputs
      \<lparr>is_terminal = False, stdin_lines = [Inr '' a '', Inr '' '', Inl ''e'', Inr ''b'']\<rparr> None =
     Inr [Inr ''a'', Inl (StdinRead ''e''), Inr ''b'']"
    by code_simp
  from cli_queries_wellformed [OF run] run show ?thesis by auto
qed

text \<open>C32: The router's loop initialises lazily and once: after the SQL session is up and the model is
  loaded, the remaining queries never register the CSV again and never load a model again - whatever
  registration, download and loading would do, the rest of the loop behaves the same - and the
  session and the model stay.\<close>

theorem ask_loop_initialises_once:
  "for_queries (ask_step prog s) qs (True, Some m) w =
     (case for_queries (ask_step (prog\<lparr>fetch := get', loaders := crates'\<rparr>)
         (s\<lparr>sql_engine := (sql_engine s)\<lparr>register_csv := reg'\<rparr>\<rparr>)) qs (True, Some m) w of
        (Inl e, w') \<Rightarrow> (Inl e, w')
      | (Inr _, w') \<Rightarrow> (Inr (True, Some m), w'))"
  using ask_loop_warm [where prog = prog and get' = get' and crates' = crates' and s = s and reg' = reg' and qs = qs and m = m and w = w]
  by (auto split: prod.split sum.split)

end
