(* ===== verification/Telemetry.thy ===== *)
theory Telemetry
  imports Types
begin

text \<open>
  \<open>src/common/telemetry.rs\<close>: the subscriber \<open>main\<close> installs for the log. The crates \<open>tracing\<close> and
  \<open>tracing-subscriber\<close> are parameters: reading and parsing the filter, and the process-wide cell that
  \<open>init\<close> fills, panicking when it cannot.
\<close>

datatype stream = Stdout | Stderr

record layer =
  with_writer :: stream
  with_target :: bool

record 'f subscriber =
  filter_layer :: 'f
  fmt_layers :: "layer list"

record ('w, 'f) tracing =
  try_from_default_env :: "env \<Rightarrow> string + 'f"
  env_filter_new :: "string \<Rightarrow> 'f"
  try_init :: "'f subscriber \<Rightarrow> ('w, string, unit) io"

definition default_directives :: string where
  "default_directives = ''info,tower_http=debug,axum::rejection=trace''"

definition init_logger :: "('w, 'f) tracing \<Rightarrow> env \<Rightarrow> ('w, err, unit) io" where
  "init_logger tr env w =
     (let filter_value = (case try_from_default_env tr env of
                            Inr f \<Rightarrow> f | Inl _ \<Rightarrow> env_filter_new tr default_directives);
          stderr_layer = \<lparr>with_writer = Stderr, with_target = True\<rparr>
      in case try_init tr \<lparr>filter_layer = filter_value, fmt_layers = [stderr_layer]\<rparr> w of
           (Inr _, w') \<Rightarrow> (Inr (), w')
         | (Inl e, w') \<Rightarrow> (Inl (Panic (''failed to set global default subscriber: '' @ e)), w'))"

text \<open>The process-wide cell: set once, for good.\<close>

definition global_cell :: "'f subscriber \<Rightarrow> ('f subscriber option, string, unit) io" where
  "global_cell sub cell =
     (case cell of None \<Rightarrow> (Inr (), Some sub) | Some _ \<Rightarrow> (Inl ''a global default trace dispatcher has already been set'', cell))"

text \<open>The log never reaches standard output, whatever the filter; and a second call panics, leaving the
  first subscriber in place.\<close>

lemma logs_to_stderr:
  assumes "try_init tr = global_cell" "init_logger tr env cell = (r, cell')" "cell = None"
  shows "r = Inr () \<and> (\<exists>sub. cell' = Some sub \<and> (\<forall>l \<in> set (fmt_layers sub). with_writer l = Stderr))"
  using assms by (auto simp: init_logger_def global_cell_def Let_def)

lemma init_logger_twice:
  assumes "try_init tr = global_cell" "init_logger tr env (Some sub) = (r, cell')"
  shows "cell' = Some sub \<and> (\<exists>m. r = Inl (Panic m))"
  using assms by (auto simp: init_logger_def global_cell_def Let_def)

end
