(* ===== verification/Process.thy ===== *)
theory Process
  imports Lifecycle Cli Telemetry
begin

text \<open>
  The whole process: \<open>main\<close> of \<open>src/main.rs\<close> with the logger, and the command \<open>serve\<close> down to the
  steps of the two servers it runs.
\<close>

text \<open>A panic while the logger is installed ends the process with 101.\<close>

definition main_process where
  "main_process tr prog cmd w =
     (case init_logger tr (environment (base prog)) w of
        (Inl _, w1) \<Rightarrow> (101 :: nat, w1)
      | (Inr _, w1) \<Rightarrow> main_program prog cmd w1)"

text \<open>What the dispatcher relies on in \<open>start_dual_server\<close>: its outcome is one its steps lead to, in some
  order of the tasks, the requests and the outside.\<close>

definition serves_dual where
  "serves_dual prog k tonic web \<longleftrightarrow>
     (\<forall>s c http_addr grpc_addr w r w'. serve_dual prog s c http_addr grpc_addr w = (r, w') \<longrightarrow>
        (\<exists>d. (dual_step k http_addr (tonic grpc_addr) s web)\<^sup>*\<^sup>* (start_dual_server (c, w)) d \<and>
           outcome d = Some r \<and> snd (shared d) = w'))"

section \<open>Facts\<close>

lemma main_process_ok:
  assumes "main_process tr prog cmd w = (0, w')"
  obtains w1 where "init_logger tr (environment (base prog)) w = (Inr (), w1)" "run prog cmd w1 = (Inr (), w')"
proof -
  obtain r w1 where log: "init_logger tr (environment (base prog)) w = (r, w1)" by (metis surj_pair)
  have r: "r = Inr ()" using assms log by (auto simp: main_process_def split: sum.splits)
  with assms log have "main_program prog cmd w1 = (0, w')" by (simp add: main_process_def)
  moreover obtain r2 w2 where run: "run prog cmd w1 = (r2, w2)" by (metis surj_pair)
  ultimately have "r2 = Inr () \<and> w2 = w'"
  proof (cases r2)
    case (Inl e)
    with \<open>main_program prog cmd w1 = (0, w')\<close> run show ?thesis
      by (cases e) (auto simp: main_program_def split: prod.splits sum.splits)
  qed (simp add: main_program_def)
  with run have "run prog cmd w1 = (Inr (), w')" by simp
  with log r show ?thesis using that by blast
qed

text \<open>The state the servers are started with.\<close>

lemma serve_reaches:
  assumes "run prog (Serve host port grpc_port) w = (Inr (), w')"
  obtains http_addr grpc_addr s w1 thr where
    "parse_addr prog (host @ '':'' @ show_nat (unat port)) = Inr http_addr"
    "parse_addr prog (host @ '':'' @ show_nat (unat grpc_port)) = Inr grpc_addr"
    "serve_dual prog s (cache_new (env_usize (environment (base prog)) ''SEMANTIC_CACHE_CAPACITY'' 1024) thr)
       http_addr grpc_addr w1 = (Inr (), w')"
    "codec_ok s = codec_ok (base prog)" "chunk_order s = chunk_order (base prog)"
    "chunk_text s = chunk_text (base prog)"
proof -
  let ?at = "\<lambda>client m. new_app_state ((base prog)\<lparr>llm_client := client, vector_db_uri :=
    env_string (environment (base prog)) ''VECTOR_DB_URI'' ''data/sap_vectors''\<rparr>) (bert_of prog m)"
  obtain http_addr grpc_addr client m w1 where reached:
    "parse_addr prog (host @ '':'' @ show_nat (unat port)) = Inr http_addr"
    "parse_addr prog (host @ '':'' @ show_nat (unat grpc_port)) = Inr grpc_addr"
    "serve_dual prog (fst (?at client m)) (snd (?at client m)) http_addr grpc_addr w1 = (Inr (), w')"
    using assms
    by (auto simp: run_def dispatch_def serve_command_def io_lift_def Let_def result_simps case_prod_beta)
  then show ?thesis
    by (intro that [of http_addr grpc_addr "fst (?at client m)"])
      (simp_all add: new_app_state_def app_limits_def codec_ok_def Let_def)
qed

text \<open>What a finished run of the two servers shows.\<close>

lemma dual_finished:
  assumes "dual_running k addr tonic s web cap thr d" "outcome d = Some (Inr ())"
  shows "task d = Ended" "in_flight (http_door d) = []" "in_flight (grpc_door d) = []"
    "mset (accepted (http_door d)) = mset (map fst (answered (http_door d))) + mset (hung_up (http_door d))"
    "mset (accepted (grpc_door d)) = mset (map fst (answered (grpc_door d))) + mset (hung_up (grpc_door d))"
  using dual_running_ok [OF assms(1)] assms(2) by (auto simp: dual_ok_def books_def timely_def)

text \<open>Two servers nobody talks to: they bind, SIGINT comes, they drain and close.\<close>

lemma quiet_run:
  fixes s :: "('w, 'q, 'o, 'p, 'b, 'conn, 'tbl, 'res, 'enc, 'j) app_state"
  shows "\<exists>d. (dual_step still_kernel addr (io_ok ()) s web)\<^sup>*\<^sup>* (start_dual_server (c, w)) d \<and>
     outcome d = Some (Inr ()) \<and> snd (shared d) = w"
proof -
  let ?step = "dual_step still_kernel addr (io_ok ()) s web"
  define sh :: "(http_request, 'j http_task, 'j http_reply) door" where "sh = new_door\<lparr>phase := Serving\<rparr>"
  define sg :: "(rpc_request, rpc_task, rpc_reply) door" where "sg = new_door\<lparr>phase := Serving\<rparr>"
  define dh dg where "dh = sh\<lparr>phase := Draining\<rparr>" and "dg = sg\<lparr>phase := Draining\<rparr>"
  define ch cg where "ch = dh\<lparr>phase := Closed\<rparr>" and "cg = dg\<lparr>phase := Closed\<rparr>"
  note doors = sh_def sg_def dh_def dg_def ch_def cg_def
  have http: "door_step (listen_on still_kernel addr) (http_service s web) f (new_door, (c, w)) (sh, (c, w))"
    "door_step (listen_on still_kernel addr) (http_service s web) True (sh, (c, w)) (dh, (c, w))"
    "door_step (listen_on still_kernel addr) (http_service s web) True (dh, (c, w)) (ch, (c, w))" for f
    unfolding doors by (intro door_step.intros; simp add: still_listen)+
  have grpc: "door_step (io_ok ()) (grpc_service s) f (new_door, (c, w)) (sg, (c, w))"
    "door_step (io_ok ()) (grpc_service s) True (sg, (c, w)) (dg, (c, w))"
    "door_step (io_ok ()) (grpc_service s) True (dg, (c, w)) (cg, (c, w))" for f
    unfolding doors by (intro door_step.intros; simp add: io_ok_def)+
  define state where "state t v h g r = \<lparr>task = t, channel = \<lparr>value_sent = v, sender_dropped = v\<rparr>, http_door = h, grpc_door = g,
    shared = (c, w), outcome = r\<rparr>" for t v r
    and h :: "(http_request, 'j http_task, 'j http_reply) door" and g :: "(rpc_request, rpc_task, rpc_reply) door"
  have on_http: "?step (state t v h g None) (state t v h' g None)"
    if "door_step (listen_on still_kernel addr) (http_service s web) v (h, (c, w)) (h', (c, w))" for t v h h' g
    using dual_step.http [where d = "state t v h g None" and k = still_kernel and addr = addr and s = s and web = web
        and h = h' and st = "(c, w)" and tonic = "io_ok ()"] that
    by (simp add: state_def changed_def)
  have on_grpc: "?step (state t v h g None) (state t v h g' None)"
    if "door_step (io_ok ()) (grpc_service s) v (g, (c, w)) (g', (c, w))" for t v h g g'
    using dual_step.grpc [where d = "state t v h g None" and k = still_kernel and addr = addr and s = s and web = web
        and g = g' and st = "(c, w)" and tonic = "io_ok ()"] that
    by (simp add: state_def changed_def)
  have on_signal: "?step (state (Awaiting t) v h g None) (state (Awaiting t') v h g None)"
    if "shutdown_step t t'" for t t' v h g
    using dual_step.signal [where d = "state (Awaiting t) v h g None", OF _ _ that] by (simp add: state_def)
  let ?wait = "Awaiting shutdown_signal"
  have "start_dual_server (c, w) = state ?wait False new_door new_door None"
    by (simp add: start_dual_server_def state_def)
  moreover have "?step (state ?wait False new_door new_door None) (state ?wait False sh new_door None)"
    "?step (state ?wait False sh new_door None) (state ?wait False sh sg None)"
    by (intro on_http on_grpc http grpc)+
  moreover have "?step (state ?wait False sh sg None) (state (Awaiting (Pending True False)) False sh sg None)"
    "?step (state (Awaiting (Pending True False)) False sh sg None) (state (Awaiting (Received Ctrl_C)) False sh sg None)"
    unfolding shutdown_signal_def by (intro on_signal shutdown_step.intros)+
  moreover have "?step (state (Awaiting (Received Ctrl_C)) False sh sg None) (state Ended True sh sg None)"
    using dual_step.send [where d = "state (Awaiting (Received Ctrl_C)) False sh sg None" and src = Ctrl_C
        and k = still_kernel and addr = addr and tonic = "io_ok ()" and s = s and web = web]
    by (simp add: state_def)
  moreover have "?step (state Ended True sh sg None) (state Ended True dh sg None)"
    "?step (state Ended True dh sg None) (state Ended True ch sg None)"
    "?step (state Ended True ch sg None) (state Ended True ch dg None)"
    "?step (state Ended True ch dg None) (state Ended True ch cg None)"
    by (intro on_http on_grpc http grpc)+
  moreover have "?step (state Ended True ch cg None) (state Ended True ch cg (Some (Inr ())))"
    using dual_step.join_ok [where d = "state Ended True ch cg None" and k = still_kernel and addr = addr
        and tonic = "io_ok ()" and s = s and web = web]
    by (simp add: state_def ch_def cg_def)
  ultimately have "?step\<^sup>*\<^sup>* (start_dual_server (c, w)) (state Ended True ch cg (Some (Inr ())))"
    by (simp only:)
  then show ?thesis by (intro exI [of _ "state Ended True ch cg (Some (Inr ()))"]) (simp add: state_def)
qed

text \<open>The demo: a process that logs, loads its model over the network, and serves nobody.\<close>

definition demo_tracing :: "('w, string) tracing" where
  "demo_tracing = \<lparr>try_from_default_env = (\<lambda>env. case env ''RUST_LOG'' of Some f \<Rightarrow> Inr f | None \<Rightarrow> Inl ''not set''),
     env_filter_new = (\<lambda>f. f), try_init = (\<lambda>_. io_ok ())\<rparr>"

definition serving_program where
  "serving_program = \<lparr>base = demo_app (\<lambda>_. Inr ''A''), fetch = toy_get,
     loaders = toy_crates, host_of = (\<lambda>_. empty_host), set_host = (\<lambda>_ w. w), bert_of = (\<lambda>_. toy_bert),
     csv_file = (\<lambda>_. Inl ''no file''), input = \<lparr>is_terminal = True, stdin_lines = []\<rparr>,
     stdout = (\<lambda>_. io_ok ()), stderr = (\<lambda>_. io_ok ()), result_to_string = (\<lambda>_. Inl ''unsupported''),
     report_to_string = (\<lambda>_. Inl ''unsupported''), parse_addr = (\<lambda>_. Inr (V4 0 8080)),
     serve_dual = (\<lambda>_ _ _ _. io_ok ())\<rparr>"

lemma demo_serves: "serves_dual serving_program still_kernel (\<lambda>_. io_ok ()) web"
proof -
  have "\<exists>d. (dual_step still_kernel http_addr (io_ok ()) s web)\<^sup>*\<^sup>* (start_dual_server (c, w)) d \<and>
      outcome d = Some r \<and> snd (shared d) = w'"
    if "serve_dual serving_program s c http_addr grpc_addr w = (r, w')" for s c http_addr grpc_addr w r w'
    using that quiet_run [of http_addr s web c w] by (simp add: serving_program_def io_ok_def)
  then show ?thesis unfolding serves_dual_def by blast
qed

lemma demo_loads: "fst (load_model toy_get toy_crates (\<lambda>_. None) empty_host) = Inr (''bytes'', ''bytes'')"
  by code_simp

lemma demo_main: "main_process demo_tracing serving_program (Serve ''0.0.0.0'' 8080 50051) w = (0, w)"
proof -
  obtain h where load: "load_model toy_get toy_crates (\<lambda>_. None) empty_host = (Inr (''bytes'', ''bytes''), h)"
    using demo_loads by (metis prod.collapse)
  show ?thesis
    by (simp add: main_process_def init_logger_def demo_tracing_def main_program_def run_def dispatch_def
        serve_command_def serving_program_def demo_app_def load_bert_def load init_datafusion_def new_app_state_def
        app_limits_def init_from_env_or_default_def demo_http_def io_lift_def io_try_def io_ok_def Let_def)
qed

section \<open>Properties\<close>



end
