(* ===== verification/Cache_Refinement.thy ===== *)
theory Cache_Refinement
  imports Semantic_Cache
begin

text \<open>
  The contract of \<open>src/engines/cache.rs\<close> as an abstract machine - a queue of entries from the least
  to the most recently used, without clock, positions or lock - and the simulation: every run of the
  cache, read in order of recency, is a run of the machine with the same outputs.
\<close>

section \<open>The abstract machine\<close>

record lru_entry =
  lru_query :: string
  lru_embedding :: "f32 list"
  lru_response :: string

datatype cache_op = Exact string | Similar "f32 list" | Insert string "f32 list" string

definition lru_matches :: "string \<Rightarrow> lru_entry \<Rightarrow> bool" where
  "lru_matches q a \<longleftrightarrow> eq_ignore_ascii_case (trim (lru_query a)) (trim q)"

definition lru_comparable :: "f32 list \<Rightarrow> lru_entry \<Rightarrow> bool" where
  "lru_comparable v a \<longleftrightarrow> length (lru_embedding a) = length v"

definition lru_similarity :: "f32 list \<Rightarrow> lru_entry \<Rightarrow> f32" where
  "lru_similarity v a = dot (lru_embedding a) v"

definition lru_qualifies :: "f32 \<Rightarrow> f32 list \<Rightarrow> lru_entry \<Rightarrow> bool" where
  "lru_qualifies thr v a \<longleftrightarrow> lru_comparable v a \<and> f32_lt f32_minus_one (lru_similarity v a) \<and>
     f32_le thr (lru_similarity v a)"

text \<open>A hit moves its entry to the end; among entries that match, or that are equally similar, any may
  be the one. A full queue gives up its head.\<close>

inductive lru_step :: "nat \<Rightarrow> f32 \<Rightarrow> lru_entry list \<Rightarrow> cache_op \<Rightarrow> string option \<Rightarrow> lru_entry list \<Rightarrow> bool"
  for cap thr where
  exact_hit: "lru_matches q a \<Longrightarrow>
    lru_step cap thr (xs @ a # ys) (Exact q) (Some (lru_response a)) (xs @ ys @ [a])"
| exact_miss: "list_all (\<lambda>a. \<not> lru_matches q a) L \<Longrightarrow> lru_step cap thr L (Exact q) None L"
| similar_hit: "lru_qualifies thr v a \<Longrightarrow>
    list_all (\<lambda>b. lru_comparable v b \<longrightarrow> \<not> f32_lt (lru_similarity v a) (lru_similarity v b)) (xs @ ys) \<Longrightarrow>
    lru_step cap thr (xs @ a # ys) (Similar v) (Some (lru_response a)) (xs @ ys @ [a])"
| similar_miss: "list_all (\<lambda>a. \<not> lru_qualifies thr v a) L \<Longrightarrow> lru_step cap thr L (Similar v) None L"
| insert: "lru_step cap thr L (Insert q v r) None
    ((if cap \<le> length L \<and> L \<noteq> [] then tl L else L) @
      [\<lparr>lru_query = q, lru_embedding = v, lru_response = r\<rparr>])"

inductive lru_run :: "nat \<Rightarrow> f32 \<Rightarrow> lru_entry list \<Rightarrow> cache_op list \<Rightarrow> string option list \<Rightarrow> lru_entry list \<Rightarrow> bool"
  for cap thr where
  stop: "lru_run cap thr L [] [] L"
| step: "lru_step cap thr L x out L1 \<Longrightarrow> lru_run cap thr L1 xs outs L2 \<Longrightarrow>
    lru_run cap thr L (x # xs) (out # outs) L2"

inductive_cases lru_stepE: "lru_step cap thr L x out L'"
inductive_simps lru_run_Nil [simp]: "lru_run cap thr L [] outs L'"
inductive_simps lru_run_Cons: "lru_run cap thr L (x # xs) outs L'"

section \<open>Runs of the cache\<close>

fun cache_exec :: "semantic_cache \<Rightarrow> nat option \<Rightarrow> cache_op \<Rightarrow> string option \<times> semantic_cache" where
  "cache_exec c t (Exact q) = get_exact c t q"
| "cache_exec c t (Similar v) = get_similar c t v"
| "cache_exec c t (Insert q v r) = (None, cache_insert c t q v r)"

fun cache_run :: "semantic_cache \<Rightarrow> (nat option \<times> cache_op) list \<Rightarrow> string option list \<times> semantic_cache" where
  "cache_run c [] = ([], c)"
| "cache_run c ((t, x) # xs) =
     (case cache_exec c t x of (out, c1) \<Rightarrow> (case cache_run c1 xs of (outs, c2) \<Rightarrow> (out # outs, c2)))"

text \<open>The clock of a run, as the cache stores it, advances from operation to operation.\<close>

definition ticking :: "nat option list \<Rightarrow> bool" where
  "ticking ts \<longleftrightarrow> sorted_wrt (<) (map current_epoch_nanos ts)"

section \<open>The simulation\<close>

definition abs_entry :: "cache_entry \<Rightarrow> lru_entry" where
  "abs_entry e = \<lparr>lru_query = entry_query e, lru_embedding = embedding e, lru_response = response e\<rparr>"

definition abs_cache :: "semantic_cache \<Rightarrow> lru_entry list" where
  "abs_cache c = map abs_entry (recency (entries c))"

lemma abs_entry_simps [simp]:
  "lru_matches q (abs_entry e) = query_matches q e"
  "lru_comparable v (abs_entry e) = comparable v e"
  "lru_similarity v (abs_entry e) = dot (embedding e) v"
  "lru_response (abs_entry e) = response e"
  "abs_entry (e\<lparr>last_accessed := t\<rparr>) = abs_entry e"
  by (simp_all add: abs_entry_def lru_matches_def query_matches_def lru_comparable_def comparable_def
      lru_similarity_def)

lemma abs_qualifies: "lru_qualifies thr v (abs_entry e) \<longleftrightarrow> comparable v e \<and>
    f32_lt f32_minus_one (dot (embedding e) v) \<and> f32_le thr (dot (embedding e) v)"
  by (simp add: lru_qualifies_def)

lemma abs_cache_Nil [simp]: "abs_cache c = [] \<longleftrightarrow> entries c = []"
  by (simp add: abs_cache_def)

lemma length_abs_cache [simp]: "length (abs_cache c) = length (entries c)"
  by (simp add: abs_cache_def)

lemma set_abs_cache [simp]: "set (abs_cache c) = abs_entry ` set (entries c)"
  by (simp add: abs_cache_def)

text \<open>A hit splits the queue at its entry.\<close>

lemma abs_touch:
  assumes "(x, c') = hit c t i" "i < length (entries c)" "fresh_time (current_epoch_nanos t) (entries c)"
  obtains xs ys where "abs_cache c = xs @ abs_entry (entries c ! i) # ys"
    "abs_cache c' = xs @ ys @ [abs_entry (entries c ! i)]"
proof -
  let ?e = "entries c ! i"
  have "?e \<in> set (recency (entries c))" using assms(2) by simp
  then obtain xs ys where split: "recency (entries c) = xs @ ?e # ys" "?e \<notin> set xs"
    by (metis split_list_first)
  have "recency (entries c') = xs @ ys @ [?e\<lparr>last_accessed := current_epoch_nanos t\<rparr>]"
    using recency_hit [OF assms] split by (simp add: lru_touch_def remove1_append)
  with split show thesis
    by (intro that [of "map abs_entry xs" "map abs_entry ys"]) (simp_all add: abs_cache_def)
qed

lemma get_exact_simulates:
  assumes "get_exact c t q = (out, c')" "\<not> poisoned c" "fresh_time (current_epoch_nanos t) (entries c)"
  shows "lru_step cap thr (abs_cache c) (Exact q) out (abs_cache c')"
proof (cases out)
  case None
  then have "find (query_matches q) (entries c) = None" "c' = c"
    using assms(1,2) fst_get_exact [of c t q]
    by (auto simp: get_exact_def hit_def split: option.splits)
  then show ?thesis
    unfolding None by (auto simp: find_None_iff list_all_iff intro!: lru_step.exact_miss)
next
  case (Some r)
  obtain i where i: "index_of (query_matches q) (entries c) = Some i" "(Some r, c') = hit c t i"
    using assms(1) unfolding Some by (rule get_exact_Some)
  have ix: "i < length (entries c)" "query_matches q (entries c ! i)"
    using i(1) by (simp_all add: index_of_Some)
  obtain xs ys where "abs_cache c = xs @ abs_entry (entries c ! i) # ys"
      "abs_cache c' = xs @ ys @ [abs_entry (entries c ! i)]"
    using abs_touch [OF i(2) _ assms(3)] ix by blast
  moreover have "r = lru_response (abs_entry (entries c ! i))" using i(2) by (simp add: hit_def)
  ultimately show ?thesis
    using ix lru_step.exact_hit [of q "abs_entry (entries c ! i)" cap thr xs ys] Some by simp
qed

lemma get_similar_simulates:
  assumes "get_similar c t v = (out, c')" "\<not> poisoned c" "fresh_time (current_epoch_nanos t) (entries c)"
  shows "lru_step cap (threshold c) (abs_cache c) (Similar v) out (abs_cache c')"
proof (cases out)
  case None
  then have "c' = c"
    using assms(1) by (auto simp: get_similar_def hit_def split: option.splits prod.splits if_splits)
  moreover have "\<not> lru_qualifies (threshold c) v (abs_entry e)" if "e \<in> set (entries c)" for e
    using similar_hit_complete [OF assms(2) that, of v t] assms(1) None by (auto simp: abs_qualifies)
  ultimately show ?thesis
    unfolding None by (auto simp: list_all_iff intro!: lru_step.similar_miss)
next
  case (Some r)
  obtain e i where e: "e \<in> set (entries c)" "(Some r, c') = hit c t i" "i < length (entries c)"
      "e = entries c ! i" "r = response e" "comparable v e"
      "f32_le (threshold c) (dot (embedding e) v)" "f32_lt f32_minus_one (dot (embedding e) v)"
      "\<forall>e' \<in> set (entries c). comparable v e' \<longrightarrow> \<not> f32_lt (dot (embedding e) v) (dot (embedding e') v)"
    using assms(1) unfolding Some by (rule get_similar_SomeE)
  obtain xs ys where split: "abs_cache c = xs @ abs_entry e # ys" "abs_cache c' = xs @ ys @ [abs_entry e]"
    using abs_touch [OF e(2,3) assms(3)] e(4) by blast
  then have "set (xs @ ys) \<subseteq> abs_entry ` set (entries c)" by (auto simp flip: set_abs_cache)
  then have "list_all (\<lambda>b. lru_comparable v b \<longrightarrow>
      \<not> f32_lt (lru_similarity v (abs_entry e)) (lru_similarity v b)) (xs @ ys)"
    using e(9) unfolding list_all_iff by fastforce
  moreover have "lru_qualifies (threshold c) v (abs_entry e)" using e by (simp add: abs_qualifies)
  ultimately show ?thesis
    using lru_step.similar_hit [of "threshold c" v "abs_entry e" xs ys cap] split Some e(5) by simp
qed

lemma cache_insert_simulates:
  assumes "\<not> poisoned c" "fresh_time (current_epoch_nanos t) (entries c)"
  shows "lru_step (capacity c) thr (abs_cache c) (Insert q v r) None (abs_cache (cache_insert c t q v r))"
proof -
  have "abs_cache (cache_insert c t q v r) =
      (if capacity c \<le> length (abs_cache c) \<and> abs_cache c \<noteq> [] then tl (abs_cache c) else abs_cache c) @
      [\<lparr>lru_query = q, lru_embedding = v, lru_response = r\<rparr>]"
    using recency_insert [OF assms, of q v r]
    by (simp add: abs_cache_def lru_push_def abs_entry_def map_tl)
  then show ?thesis by (simp only: lru_step.insert)
qed

lemma exec_simulates:
  assumes "cache_exec c t x = (out, c')" "\<not> poisoned c" "fresh_time (current_epoch_nanos t) (entries c)"
  shows "lru_step (capacity c) (threshold c) (abs_cache c) x out (abs_cache c')"
  using assms get_exact_simulates get_similar_simulates cache_insert_simulates by (cases x) auto

text \<open>What the operations leave: the parameters as they were, distinct times no later than now.\<close>

lemma hit_times:
  assumes "(x, c') = hit c t i" "i < length (entries c)" "fresh_time (current_epoch_nanos t) (entries c)"
  shows "distinct (map last_accessed (entries c')) \<and>
    (\<forall>e \<in> set (entries c'). last_accessed e \<le> current_epoch_nanos t)"
proof -
  have "map last_accessed (entries c') = (map last_accessed (entries c))[i := current_epoch_nanos t]"
    using assms(1) by (simp add: hit_def map_update)
  moreover have "current_epoch_nanos t \<notin> set (map last_accessed (entries c))"
    using assms(3) by (auto simp: fresh_time_def)
  ultimately have d: "distinct (map last_accessed (entries c'))"
    using assms(3) by (simp add: distinct_list_update fresh_time_def)
  have "last_accessed e \<le> current_epoch_nanos t" if "e \<in> set (entries c')" for e
  proof -
    have "e = (entries c ! i)\<lparr>last_accessed := current_epoch_nanos t\<rparr> \<or> e \<in> set (entries c)"
      using assms(1) that subsetD [OF set_update_subset_insert] by (force simp: hit_def)
    then show ?thesis using assms(3) by (auto simp: fresh_time_def less_imp_le)
  qed
  with d show ?thesis by blast
qed

lemma exec_keeps:
  assumes "cache_exec c t x = (out, c')" "\<not> poisoned c" "fresh_time (current_epoch_nanos t) (entries c)"
  shows "\<not> poisoned c' \<and> capacity c' = capacity c \<and> threshold c' = threshold c \<and>
    distinct (map last_accessed (entries c')) \<and>
    (\<forall>e \<in> set (entries c'). last_accessed e \<le> current_epoch_nanos t)"
proof (cases out)
  case (Some r)
  then have "\<exists>i. (Some r, c') = hit c t i \<and> i < length (entries c)"
    using assms(1) by (cases x) (auto elim!: get_exact_Some get_similar_Some simp: index_of_Some)
  then show ?thesis using hit_times [OF _ _ assms(3)] assms(2) by (fastforce simp: hit_def)
next
  case None
  show ?thesis
  proof (cases x)
    case (Insert q v r)
    have "distinct (map last_accessed (make_room (capacity c) (entries c)))"
      using assms(3) by (simp add: fresh_time_def distinct_make_room)
    moreover have "\<forall>e \<in> set (make_room (capacity c) (entries c)). last_accessed e < current_epoch_nanos t"
      using assms(3) subsetD [OF set_make_room] by (auto simp: fresh_time_def)
    moreover from this have "current_epoch_nanos t \<notin> last_accessed ` set (make_room (capacity c) (entries c))"
      by force
    ultimately show ?thesis
      using Insert assms(1,2) by (auto simp: cache_insert_def less_imp_le)
  next
    case (Exact q)
    with assms None have "c' = c" by (auto simp: get_exact_def hit_def split: option.splits)
    with assms show ?thesis by (auto simp: fresh_time_def less_imp_le)
  next
    case (Similar v)
    with assms None have "c' = c"
      by (auto simp: get_similar_def hit_def split: option.splits prod.splits if_splits)
    with assms show ?thesis by (auto simp: fresh_time_def less_imp_le)
  qed
qed

lemma run_simulates:
  assumes "\<not> poisoned c" "distinct (map last_accessed (entries c))"
    and "\<forall>e \<in> set (entries c). \<forall>t \<in> set (map fst xs). last_accessed e < current_epoch_nanos t"
    and "ticking (map fst xs)" "cache_run c xs = (outs, c')"
  shows "lru_run (capacity c) (threshold c) (abs_cache c) (map snd xs) outs (abs_cache c')"
  using assms
proof (induction xs arbitrary: c outs)
  case Nil
  then show ?case by simp
next
  case (Cons tx xs)
  obtain t x where tx: "tx = (t, x)" by fastforce
  obtain out c1 where exec: "cache_exec c t x = (out, c1)" by fastforce
  obtain outs1 where run: "cache_run c1 xs = (outs1, c')" "outs = out # outs1"
    using Cons.prems(5) tx exec by (auto split: prod.splits)
  have fresh: "fresh_time (current_epoch_nanos t) (entries c)"
    using Cons.prems(2,3) tx by (simp add: fresh_time_def)
  note kept = exec_keeps [OF exec Cons.prems(1) fresh]
  have "lru_run (capacity c1) (threshold c1) (abs_cache c1) (map snd xs) outs1 (abs_cache c')"
    using kept Cons.prems(4) tx run(1)
    by (intro Cons.IH) (auto simp: ticking_def intro: le_less_trans)
  then show ?case
    using exec_simulates [OF exec Cons.prems(1) fresh] kept tx run(2) by (simp add: lru_run.step)
qed

section \<open>Properties\<close>

text \<open>C17: The semantic cache is an LRU cache: with a clock that advances, every sequence of lookups and
  insertions from the empty cache gives the outputs of a run of the abstract queue of the same
  capacity and threshold, and ends in the queue of that run when its entries are read from the least
  to the most recently used.\<close>

theorem cache_run_refines_lru:
  assumes "ticking (map fst xs)" "cache_run (cache_new cap thr) xs = (outs, c')"
  shows "lru_run cap thr [] (map snd xs) outs (abs_cache c')"
  using run_simulates [of "cache_new cap thr" xs outs c'] assms
  by (simp add: cache_new_def abs_cache_def recency_def)

definition demo_run_ops :: "(nat option \<times> cache_op) list" where
  "demo_run_ops =
     [(Some 1, Insert ''Q1'' [f32_one, f32_zero] ''r1''), (Some 2, Insert ''Q2'' [f32_zero, f32_one] ''r2''),
      (Some 3, Exact '' q1 ''), (Some 4, Insert ''Q3'' [f32_one, f32_one] ''r3''), (Some 5, Exact ''Q2''),
      (Some 6, Similar [f32_one, f32_zero])]"

theorem cache_run_refines_lru_witness:
  "\<exists>c'. cache_run (cache_new 2 f32_one) demo_run_ops =
      ([None, None, Some ''r1'', None, None, Some ''r1''], c') \<and>
    lru_run 2 f32_one [] (map snd demo_run_ops) [None, None, Some ''r1'', None, None, Some ''r1''] (abs_cache c')"
proof -
  have ticks: "ticking (map fst demo_run_ops)"
    by (simp add: ticking_def demo_run_ops_def current_epoch_nanos_def)
  have "fst (cache_run (cache_new 2 f32_one) demo_run_ops) = [None, None, Some ''r1'', None, None, Some ''r1'']"
    by code_simp
  then obtain c' where "cache_run (cache_new 2 f32_one) demo_run_ops =
      ([None, None, Some ''r1'', None, None, Some ''r1''], c')"
    by (metis prod.collapse)
  with cache_run_refines_lru [OF ticks this] show ?thesis by blast
qed

end
