(* ===== verification/Unit_Tests.thy ===== *)
theory Unit_Tests
  imports Semantic_Cache Rank_Fusion Rerank Sql_Engine Firewall Prompts Vector_Store
begin

text \<open>
  The unit tests the sources carry (\<open>#[cfg(test)]\<close>), translated: a test is a bool, true when every
  assertion holds, and an \<open>unwrap\<close> of nothing makes it false. Each is shown to hold of the model, so the
  definitions agree with the code on the inputs its authors chose. What a test takes from a crate (the
  SQL parser, serde, Arrow's encoder) or from the clock is an argument.
\<close>

section \<open>\<open>engines/cache.rs\<close>\<close>

definition test_cache_insert_and_exact_get :: "(nat \<Rightarrow> nat option) \<Rightarrow> bool" where
  "test_cache_insert_and_exact_get clk \<longleftrightarrow>
     (let cache = cache_new 2 (F32 0x3F733333);
          cache = cache_insert cache (clk 0) ''query A'' [f32_one, f32_zero] [CHR 0x01, CHR 0x02, CHR 0x03];
          (hit, cache) = get_exact cache (clk 1) ''query A''
      in hit = Some [CHR 0x01, CHR 0x02, CHR 0x03])"

definition test_cache_semantic_match_threshold :: "(nat \<Rightarrow> nat option) \<Rightarrow> bool" where
  "test_cache_semantic_match_threshold clk \<longleftrightarrow>
     (let cache = cache_new 2 (F32 0x3F733333);
          cache = cache_insert cache (clk 0) ''query A'' [f32_one, f32_zero] [CHR 0x01, CHR 0x02, CHR 0x03];
          similar_vec = [F32 0x3F7D70A4, F32 0x3E10624E];
          (hit, cache) = get_similar cache (clk 1) similar_vec;
          dissimilar_vec = [f32_zero, f32_one];
          (miss, cache) = get_similar cache (clk 2) dissimilar_vec
      in hit = Some [CHR 0x01, CHR 0x02, CHR 0x03] \<and> miss = None)"

definition test_cache_lru_capacity_eviction :: "(nat \<Rightarrow> nat option) \<Rightarrow> bool" where
  "test_cache_lru_capacity_eviction clk \<longleftrightarrow>
     (let cache = cache_new 2 (F32 0x3F733333);
          cache = cache_insert cache (clk 0) ''Q1'' [f32_one, f32_zero] [CHR 0x01];
          cache = cache_insert cache (clk 1) ''Q2'' [f32_zero, f32_one] [CHR 0x02];
          len_2 = cache_len cache;
          (q1, cache) = get_exact cache (clk 2) ''Q1'';
          cache = cache_insert cache (clk 3) ''Q3'' [F32 0x3F333333, F32 0x3F333333] [CHR 0x03];
          len_3 = cache_len cache;
          (q1', cache) = get_exact cache (clk 4) ''Q1'';
          (q2, cache) = get_exact cache (clk 5) ''Q2'';
          (q3, cache) = get_exact cache (clk 6) ''Q3''
      in len_2 = 2 \<and> q1 \<noteq> None \<and> len_3 = 2 \<and> q1' \<noteq> None \<and> q2 = None \<and> q3 \<noteq> None)"

lemma cache_tests:
  "test_cache_insert_and_exact_get Some" "test_cache_semantic_match_threshold Some"
  "test_cache_lru_capacity_eviction Some"
  by code_simp+

section \<open>\<open>engines/rank_fusion.rs\<close>\<close>

definition test_fuse_ranked_candidates_scoring_and_ordering where
  "test_fuse_ranked_candidates_scoring_and_ordering order \<longleftrightarrow>
     (let dense = [''docA'', ''docB''];
          lexical = [''docB'', ''docC''];
          fused = fuse_ranked_candidates order dense lexical (F32 0x42700000)
      in fused \<noteq> [] \<and> fst (fused ! 0) = ''docB'')"

definition test_fuse_ranked_candidates_empty_inputs where
  "test_fuse_ranked_candidates_empty_inputs order \<longleftrightarrow>
     fuse_ranked_candidates order [] [] (F32 0x42700000) = []"

definition test_fuse_ranked_candidates_tie_breaking_by_id where
  "test_fuse_ranked_candidates_tie_breaking_by_id order \<longleftrightarrow>
     (let dense = [''docZ''];
          lexical = [''docA''];
          fused = fuse_ranked_candidates order dense lexical (F32 0x42700000)
      in length fused = 2 \<and> fst (fused ! 0) = ''docA'' \<and> fst (fused ! 1) = ''docZ'' \<and>
         f32_eq (snd (fused ! 0)) (snd (fused ! 1)))"

lemma fuse_any_order:
  assumes "\<forall>m. finite (dom m) \<longrightarrow> lists_map order m" "distinct ks" "set ks = set dense \<union> set lexical"
  shows "fuse_ranked_candidates order dense lexical k = fuse_ranked_candidates (listing ks) dense lexical k"
  unfolding fuse_ranked_candidates_def
proof (rule fusion.sort_by_perm_eq)
  have "lists_map order (fusion_scores dense lexical k)" "lists_map (listing ks) (fusion_scores dense lexical k)"
    using assms by (simp_all add: dom_fusion_scores lists_map_listing)
  then show "mset (order (fusion_scores dense lexical k)) = mset (listing ks (fusion_scores dense lexical k))"
    by (auto simp: lists_map_def intro: map_of_distinct_mset)
qed (rule fuse_le_antisym)

lemma fuse_tests:
  assumes "\<forall>m. finite (dom m) \<longrightarrow> lists_map order m"
  shows "test_fuse_ranked_candidates_scoring_and_ordering order"
    and "test_fuse_ranked_candidates_empty_inputs order"
    and "test_fuse_ranked_candidates_tie_breaking_by_id order"
proof -
  have "test_fuse_ranked_candidates_scoring_and_ordering (listing [''docC'', ''docA'', ''docB''])"
    "test_fuse_ranked_candidates_empty_inputs (listing [])"
    "test_fuse_ranked_candidates_tie_breaking_by_id (listing [''docZ'', ''docA''])"
    by code_simp+
  moreover have "fuse_ranked_candidates order [''docA'', ''docB''] [''docB'', ''docC''] k =
      fuse_ranked_candidates (listing [''docC'', ''docA'', ''docB'']) [''docA'', ''docB''] [''docB'', ''docC''] k"
    "fuse_ranked_candidates order [] [] k = fuse_ranked_candidates (listing []) [] [] k"
    "fuse_ranked_candidates order [''docZ''] [''docA''] k =
      fuse_ranked_candidates (listing [''docZ'', ''docA'']) [''docZ''] [''docA''] k" for k
    by (rule fuse_any_order [OF assms], auto)+
  ultimately show "test_fuse_ranked_candidates_scoring_and_ordering order"
    "test_fuse_ranked_candidates_empty_inputs order" "test_fuse_ranked_candidates_tie_breaking_by_id order"
    by (simp_all only: test_fuse_ranked_candidates_scoring_and_ordering_def
        test_fuse_ranked_candidates_empty_inputs_def test_fuse_ranked_candidates_tie_breaking_by_id_def Let_def simp_thms)
qed

section \<open>\<open>engines/rerank.rs\<close>\<close>

definition test_rerank_by_scores_orders_descending_and_truncates :: bool where
  "test_rerank_by_scores_orders_descending_and_truncates \<longleftrightarrow>
     (let candidates = [(''id_low'', ''low score chunk''), (''id_high'', ''high score chunk''),
            (''id_mid'', ''mid score chunk'')];
          scores = [F32 0xBFC00000, F32 0x4099999A, F32 0x3F99999A];
          reranked = rerank_by_scores candidates scores 2
      in length reranked = 2 \<and> fst (reranked ! 0) = ''id_high'' \<and> fst (reranked ! 1) = ''id_mid'')"

definition test_rerank_handles_nan_with_total_cmp :: bool where
  "test_rerank_handles_nan_with_total_cmp \<longleftrightarrow>
     (let candidates = [(''id_low'', ''low score chunk''), (''id_high'', ''high score chunk''),
            (''id_nan'', ''nan score chunk'')];
          scores = [F32 0xC0A00000, F32 0x41200000, f32_nan];
          reranked = rerank_by_scores candidates scores 3
      in length reranked = 3 \<and> fst (reranked ! 0) = ''id_nan'' \<and> fst (reranked ! 1) = ''id_high'' \<and>
         fst (reranked ! 2) = ''id_low'')"

definition test_rerank_candidates_with_scorer_orders_and_truncates :: bool where
  "test_rerank_candidates_with_scorer_orders_and_truncates \<longleftrightarrow>
     (let candidates = [(''id_low'', ''low score passage''), (''id_high'', ''high score passage''),
            (''id_mid'', ''mid score passage'')];
          scorer = (\<lambda>_ passages. if length passages = 3
            then Inr [F32 0x3DCCCCCD, F32 0x3F666666, F32 0x3F000000] else Inl (Panic ''assertion failed''))
      in case rerank_candidates_with_scorer candidates ''query text'' 2 scorer of
           Inl _ \<Rightarrow> False
         | Inr result \<Rightarrow> length result = 2 \<and> fst (result ! 0) = ''id_high'' \<and> fst (result ! 1) = ''id_mid'')"

lemma rerank_tests:
  "test_rerank_by_scores_orders_descending_and_truncates" "test_rerank_handles_nan_with_total_cmp"
  "test_rerank_candidates_with_scorer_orders_and_truncates"
  by code_simp+

section \<open>\<open>engines/embeddings.rs\<close>\<close>

definition f32_sub :: "f32 \<Rightarrow> f32 \<Rightarrow> f32" where
  "f32_sub x y = f32_add x (f32_make (\<not> f32_sign y) (f32_mag y))"

definition test_normalize_unit_vector :: bool where
  "test_normalize_unit_vector \<longleftrightarrow>
     (let vec = normalize_vector_slice [F32 0x40400000, F32 0x40800000];
          new_mag = f32_sqrt (f32_sum (map (\<lambda>x. f32_mul x x) vec))
      in list_all2 f32_eq vec [F32 0x3F19999A, F32 0x3F4CCCCD] \<and>
         f32_lt (f32_abs (f32_sub new_mag f32_one)) (F32 0x358637BD))"

definition test_normalize_zero_vector :: bool where
  "test_normalize_zero_vector \<longleftrightarrow>
     list_all2 f32_eq (normalize_vector_slice [f32_zero, f32_zero, f32_zero]) [f32_zero, f32_zero, f32_zero]"

definition test_embedding_batch_bounds_and_invariants :: bool where
  "test_embedding_batch_bounds_and_invariants \<longleftrightarrow>
     (let r1 = [f32_one, F32 0x40000000]; r2 = [F32 0x40400000, F32 0x40800000] in
      (case try_new [f32_one, F32 0x40000000, F32 0x40400000, F32 0x40800000] 2 2 of
         Inl _ \<Rightarrow> False
       | Inr batch \<Rightarrow> batch_row batch 0 = Some r1 \<and> batch_row batch 1 = Some r2 \<and> batch_row batch 2 = None \<and>
           into_vecs batch = [r1, r2]) \<and>
      \<not> is_ok (try_new [f32_one] 2 2) \<and>
      (case try_new [] 768 0 of
         Inl _ \<Rightarrow> False
       | Inr none \<Rightarrow> batch_row none 0 = None \<and> into_vecs none = []))"

lemma embeddings_tests:
  "test_normalize_unit_vector" "test_normalize_zero_vector" "test_embedding_batch_bounds_and_invariants"
proof -
  show "test_normalize_unit_vector" by code_simp
  show "test_normalize_zero_vector" by code_simp
  have two: "[0..<2] = [0, 1 :: nat]" by (simp add: upt_rec)
  show "test_embedding_batch_bounds_and_invariants"
    by (simp add: test_embedding_batch_bounds_and_invariants_def try_new_def batch_row_def into_vecs_def
        checked_mul_def checked_add_def slice_get_def List.map_filter_def two)
qed

section \<open>\<open>engines/vector.rs\<close>\<close>

definition test_fallback_sql_sanitization :: bool where
  "test_fallback_sql_sanitization \<longleftrightarrow>
     (let intent_text = ''find customer '' @ [quote] @ ''O'' @ [quote] @ ''Connor'' @ [quote];
          sql = build_fallback_sql intent_text
      in sql = ''sentence LIKE '' @ [quote] @ ''%find%'' @ [quote] @ '' AND sentence LIKE '' @ [quote] @
           ''%customer%'' @ [quote] @ '' AND sentence LIKE '' @ [quote] @ ''%'' @ [quote, quote] @ ''O'' @
           [quote, quote] @ ''Connor'' @ [quote, quote] @ ''%'' @ [quote])"

lemma vector_tests: "test_fallback_sql_sanitization"
  by code_simp

section \<open>\<open>pipelines/query/prompts.rs\<close>\<close>

text \<open>\<open>str::find\<close>.\<close>

fun str_find :: "string \<Rightarrow> string \<Rightarrow> nat option" where
  "str_find [] needle = (if needle = [] then Some 0 else None)"
| "str_find (c # hay) needle =
     (if prefix needle (c # hay) then Some 0 else map_option Suc (str_find hay needle))"

definition test_build_semantic_prompt_preserves_slice_order :: bool where
  "test_build_semantic_prompt_preserves_slice_order \<longleftrightarrow>
     (let chunks = [(''chunk_1'', ''First chunk text''), (''chunk_2'', ''Second chunk text'')];
          prompt = build_semantic_prompt ''Where is the customer?'' chunks
      in case (str_find prompt ''CHUNK ID: chunk_1'', str_find prompt ''CHUNK ID: chunk_2'') of
           (Some pos1, Some pos2) \<Rightarrow> pos1 < pos2
         | _ \<Rightarrow> False)"

lemma prompts_tests: "test_build_semantic_prompt_preserves_slice_order"
  by code_simp

section \<open>\<open>pipelines/query/firewall.rs\<close>\<close>

text \<open>\<open>parsed["route"]\<close> on a \<open>serde_json::Value\<close> is the accessor \<open>index\<close>.\<close>

definition test_parse_clean_json where
  "test_parse_clean_json from_str index \<longleftrightarrow>
     (let raw = ''{\"route\": \"SQL\", \"query\": \"SELECT * FROM kna1\"}''
      in case parse_llm_json from_str raw of Inl _ \<Rightarrow> False | Inr parsed \<Rightarrow> index parsed ''route'' = ''SQL'')"

definition test_parse_markdown_wrapped_json where
  "test_parse_markdown_wrapped_json from_str index \<longleftrightarrow>
     (let raw = ''```json'' @ [nl] @ ''{\"route\": \"SQL\", \"query\": \"\"}'' @ [nl] @ ''```''
      in case parse_llm_json from_str raw of Inl _ \<Rightarrow> False | Inr parsed \<Rightarrow> index parsed ''route'' = ''SQL'')"

definition test_parse_triple_backtick_json where
  "test_parse_triple_backtick_json from_str index \<longleftrightarrow>
     (let raw = ''```'' @ [nl] @ ''{\"route\": \"SEMANTIC\", \"query\": \"\"}'' @ [nl] @ ''```''
      in case parse_llm_json from_str raw of Inl _ \<Rightarrow> False | Inr parsed \<Rightarrow> index parsed ''route'' = ''SEMANTIC'')"

definition test_parse_garbage_fails where
  "test_parse_garbage_fails from_str \<longleftrightarrow>
     (let raw = ''This is just conversational text.'' in \<not> is_ok (parse_llm_json from_str raw))"

text \<open>The raw answers of the tests: one field a line, indented as in the source.\<close>

definition raw_answer :: "string list \<Rightarrow> string" where
  "raw_answer field_texts =
     ''{'' @ [nl] @ str_join ('','' @ [nl]) (map (\<lambda>f. replicate 12 (CHR '' '') @ f) field_texts) @ [nl] @
     replicate 8 (CHR '' '') @ ''}''"

definition acme_chunks :: chunks where
  "acme_chunks = [(''chunk_1'', ''The customer is Acme Corp in Berlin.'')]"

definition raw_valid :: string where
  "raw_valid = raw_answer [''\"answer_found\": true'', ''\"answer\": \"The customer is Acme Corp.\"'',
     ''\"exact_quote\": \"Acme Corp in Berlin\"'', ''\"source_chunk_id\": \"chunk_1\"'']"

definition test_verify_valid_generation where
  "test_verify_valid_generation from_str \<longleftrightarrow>
     is_ok (verify_and_parse_llm_generation from_str raw_valid acme_chunks)"

definition raw_hallucinated :: string where
  "raw_hallucinated = raw_answer [''\"answer_found\": true'', ''\"answer\": \"The customer is in Munich.\"'',
     ''\"exact_quote\": \"Acme Corp in Munich\"'', ''\"source_chunk_id\": \"chunk_1\"'']"

definition test_verify_hallucinated_quote_blocked where
  "test_verify_hallucinated_quote_blocked from_str \<longleftrightarrow>
     (case verify_and_parse_llm_generation from_str raw_hallucinated acme_chunks of
        Inl e \<Rightarrow> str_contains (display e) ''Hallucination detected''
      | Inr _ \<Rightarrow> False)"

definition raw_fake_id :: string where
  "raw_fake_id = raw_answer [''\"answer_found\": true'', ''\"answer\": \"The customer is Acme Corp.\"'',
     ''\"exact_quote\": \"Acme Corp\"'', ''\"source_chunk_id\": \"chunk_999\"'']"

definition test_verify_fake_chunk_id_blocked where
  "test_verify_fake_chunk_id_blocked from_str \<longleftrightarrow>
     (case verify_and_parse_llm_generation from_str raw_fake_id acme_chunks of
        Inl e \<Rightarrow> str_contains (display e) ''non-existent chunk ID''
      | Inr _ \<Rightarrow> False)"

definition raw_not_found :: string where
  "raw_not_found = raw_answer [''\"answer_found\": false'', ''\"answer\": \"\"'',
     ''\"exact_quote\": \"\"'', ''\"source_chunk_id\": \"\"'']"

definition test_verify_answer_not_found_passes where
  "test_verify_answer_not_found_passes from_str \<longleftrightarrow>
     is_ok (verify_and_parse_llm_generation from_str raw_not_found [])"

text \<open>What serde does with the texts: it reads the objects and refuses what is no JSON.\<close>

definition reads_routes where
  "reads_routes from_str index \<longleftrightarrow>
     (\<exists>v1 v2 v3. from_str ''{\"route\": \"SQL\", \"query\": \"SELECT * FROM kna1\"}'' = Inr v1 \<and>
        index v1 ''route'' = ''SQL'' \<and>
        from_str ''{\"route\": \"SQL\", \"query\": \"\"}'' = Inr v2 \<and> index v2 ''route'' = ''SQL'' \<and>
        from_str ''{\"route\": \"SEMANTIC\", \"query\": \"\"}'' = Inr v3 \<and> index v3 ''route'' = ''SEMANTIC'') \<and>
     \<not> is_ok (from_str ''This is just conversational text.'')"

definition reads_answers :: "semantic_response deserializer \<Rightarrow> bool" where
  "reads_answers from_str \<longleftrightarrow>
     from_str raw_valid = Inr \<lparr>answer_found = True, answer = ''The customer is Acme Corp.'',
       exact_quote = ''Acme Corp in Berlin'', source_chunk_id = ''chunk_1''\<rparr> \<and>
     from_str raw_hallucinated = Inr \<lparr>answer_found = True, answer = ''The customer is in Munich.'',
       exact_quote = ''Acme Corp in Munich'', source_chunk_id = ''chunk_1''\<rparr> \<and>
     from_str raw_fake_id = Inr \<lparr>answer_found = True, answer = ''The customer is Acme Corp.'',
       exact_quote = ''Acme Corp'', source_chunk_id = ''chunk_999''\<rparr> \<and>
     from_str raw_not_found = Inr \<lparr>answer_found = False, answer = [], exact_quote = [], source_chunk_id = []\<rparr>"

lemma route_tests:
  assumes "reads_routes from_str index"
  shows "test_parse_clean_json from_str index" "test_parse_markdown_wrapped_json from_str index"
    "test_parse_triple_backtick_json from_str index" "test_parse_garbage_fails from_str"
proof -
  have clean:
    "clean_json ''{\"route\": \"SQL\", \"query\": \"SELECT * FROM kna1\"}'' =
       ''{\"route\": \"SQL\", \"query\": \"SELECT * FROM kna1\"}''"
    "clean_json (''```json'' @ [nl] @ ''{\"route\": \"SQL\", \"query\": \"\"}'' @ [nl] @ ''```'') =
       ''{\"route\": \"SQL\", \"query\": \"\"}''"
    "clean_json (''```'' @ [nl] @ ''{\"route\": \"SEMANTIC\", \"query\": \"\"}'' @ [nl] @ ''```'') =
       ''{\"route\": \"SEMANTIC\", \"query\": \"\"}''"
    "clean_json ''This is just conversational text.'' = ''This is just conversational text.''"
    by code_simp+
  note parsed = assms [unfolded reads_routes_def]
  show "test_parse_clean_json from_str index" "test_parse_markdown_wrapped_json from_str index"
    "test_parse_triple_backtick_json from_str index" "test_parse_garbage_fails from_str"
    unfolding test_parse_clean_json_def test_parse_markdown_wrapped_json_def
      test_parse_triple_backtick_json_def test_parse_garbage_fails_def Let_def parse_llm_json_def clean
    using parsed by (auto simp: result_simps)
qed

lemma answer_tests:
  assumes "reads_answers from_str"
  shows "test_verify_valid_generation from_str" "test_verify_hallucinated_quote_blocked from_str"
    "test_verify_fake_chunk_id_blocked from_str" "test_verify_answer_not_found_passes from_str"
proof -
  have clean: "clean_json raw_valid = raw_valid" "clean_json raw_hallucinated = raw_hallucinated"
    "clean_json raw_fake_id = raw_fake_id" "clean_json raw_not_found = raw_not_found"
    by code_simp+
  have quotes: "str_contains (snd (hd acme_chunks)) ''Acme Corp in Berlin''"
    "\<not> str_contains (snd (hd acme_chunks)) ''Acme Corp in Munich''"
    "str_contains (display (Hallucination ''Acme Corp in Munich'')) ''Hallucination detected''"
    "str_contains (display (UnknownChunk ''chunk_999'')) ''non-existent chunk ID''"
    by code_simp+
  show "test_verify_valid_generation from_str" "test_verify_hallucinated_quote_blocked from_str"
    "test_verify_fake_chunk_id_blocked from_str" "test_verify_answer_not_found_passes from_str"
    unfolding test_verify_valid_generation_def test_verify_hallucinated_quote_blocked_def
      test_verify_fake_chunk_id_blocked_def test_verify_answer_not_found_passes_def
      verify_and_parse_llm_generation_def parse_llm_json_def clean
    using assms quotes by (simp_all add: reads_answers_def acme_chunks_def del: display.simps)
qed

section \<open>\<open>engines/ast_guard.rs\<close>\<close>

definition gate_passes where
  "gate_passes parse_sql query \<longleftrightarrow> is_ok (validate_sql_is_safe parse_sql query)"

definition gate_blocks where
  "gate_blocks parse_sql query part_of_error \<longleftrightarrow>
     (case validate_sql_is_safe parse_sql query of
        Inl e \<Rightarrow> str_contains (display e) part_of_error
      | Inr _ \<Rightarrow> False)"

definition test_valid_select_passes where
  "test_valid_select_passes parse_sql \<longleftrightarrow> gate_passes parse_sql
     (''SELECT * FROM kna1 WHERE ort01 = '' @ [quote] @ ''Berlin'' @ [quote])"

definition test_drop_table_blocked where
  "test_drop_table_blocked parse_sql \<longleftrightarrow> gate_blocks parse_sql
     (''DROP TABLE kna1'') ''SECURITY VIOLATION''"

definition test_multi_statement_blocked where
  "test_multi_statement_blocked parse_sql \<longleftrightarrow> gate_blocks parse_sql
     (''SELECT 1; DROP TABLE kna1;'') ''Multiple SQL statements detected''"

definition test_insert_blocked where
  "test_insert_blocked parse_sql \<longleftrightarrow> gate_blocks parse_sql
     (''INSERT INTO kna1 VALUES ('' @ [quote] @ ''1000'' @ [quote] @ '')'') ''pure SELECT queries are permitted''"

definition test_golden_heavy_aggregation where
  "test_golden_heavy_aggregation parse_sql \<longleftrightarrow> gate_passes parse_sql
     (''SELECT land1, sum(length(name1)), count(*) FROM kna1 GROUP BY land1 HAVING count(*) > 5 ORDER BY land1 DESC LIMIT 5 OFFSET 10'')"

definition test_golden_cte_with_clause where
  "test_golden_cte_with_clause parse_sql \<longleftrightarrow> gate_passes parse_sql
     (''WITH regional_counts AS (SELECT ort01, count(*) as c FROM kna1 GROUP BY ort01) SELECT * FROM regional_counts WHERE c > 10'')"

definition test_golden_window_function where
  "test_golden_window_function parse_sql \<longleftrightarrow> gate_passes parse_sql
     (''SELECT kunnr, name1, row_number() OVER (PARTITION BY land1 ORDER BY kunnr) as rank FROM kna1'')"

definition test_golden_complex_self_join where
  "test_golden_complex_self_join parse_sql \<longleftrightarrow> gate_passes parse_sql
     (''SELECT a.kunnr, b.name1 FROM kna1 a INNER JOIN kna1 b ON a.ort01 = b.ort01 WHERE a.kunnr != b.kunnr'')"

definition test_golden_casting_and_coalesce where
  "test_golden_casting_and_coalesce parse_sql \<longleftrightarrow> gate_passes parse_sql
     (''SELECT coalesce(kunnr, '' @ [quote] @ ''UNKNOWN'' @ [quote] @ ''), cast(length(name1) as INT) FROM kna1 WHERE ort01 IS NOT NULL'')"

definition test_golden_attack_truncate where
  "test_golden_attack_truncate parse_sql \<longleftrightarrow> gate_blocks parse_sql
     (''TRUNCATE TABLE kna1;'') ''SECURITY VIOLATION''"

definition test_golden_attack_alter_schema where
  "test_golden_attack_alter_schema parse_sql \<longleftrightarrow> gate_blocks parse_sql
     (''ALTER TABLE kna1 ADD COLUMN secret VARCHAR(255);'') ''SECURITY VIOLATION''"

definition test_golden_attack_exfiltration_copy where
  "test_golden_attack_exfiltration_copy parse_sql \<longleftrightarrow> gate_blocks parse_sql
     (''COPY kna1 TO '' @ [quote] @ ''/tmp/kna1_stolen.csv'' @ [quote] @ '';'') ''SECURITY VIOLATION''"

definition test_golden_attack_transaction_block where
  "test_golden_attack_transaction_block parse_sql \<longleftrightarrow> gate_blocks parse_sql
     (''BEGIN TRANSACTION; DROP TABLE kna1; COMMIT;'') ''Multiple SQL statements''"

definition test_golden_attack_comment_obfuscated_injection where
  "test_golden_attack_comment_obfuscated_injection parse_sql \<longleftrightarrow> gate_blocks parse_sql
     (''SELECT * FROM kna1; /* bypass filter */ DROP TABLE kna1;'') ''Multiple SQL statements''"

text \<open>How SQL reads these texts: which are one query, which are one statement of another kind, and which
  are several statements.\<close>

definition reads_sql where
  "reads_sql parse_sql \<longleftrightarrow>
     list_all (\<lambda>q. \<exists>s. parse_sql q = Inr [Query s])
       [''SELECT * FROM kna1 WHERE ort01 = '' @ [quote] @ ''Berlin'' @ [quote],
        ''SELECT land1, sum(length(name1)), count(*) FROM kna1 GROUP BY land1 HAVING count(*) > 5 ORDER BY land1 DESC LIMIT 5 OFFSET 10'',
        ''WITH regional_counts AS (SELECT ort01, count(*) as c FROM kna1 GROUP BY ort01) SELECT * FROM regional_counts WHERE c > 10'',
        ''SELECT kunnr, name1, row_number() OVER (PARTITION BY land1 ORDER BY kunnr) as rank FROM kna1'',
        ''SELECT a.kunnr, b.name1 FROM kna1 a INNER JOIN kna1 b ON a.ort01 = b.ort01 WHERE a.kunnr != b.kunnr'',
        ''SELECT coalesce(kunnr, '' @ [quote] @ ''UNKNOWN'' @ [quote] @ ''), cast(length(name1) as INT) FROM kna1 WHERE ort01 IS NOT NULL''] \<and>
     list_all (\<lambda>q. \<exists>s. parse_sql q = Inr [Other_Statement s])
       [''DROP TABLE kna1'',
        ''INSERT INTO kna1 VALUES ('' @ [quote] @ ''1000'' @ [quote] @ '')'',
        ''TRUNCATE TABLE kna1;'',
        ''ALTER TABLE kna1 ADD COLUMN secret VARCHAR(255);'',
        ''COPY kna1 TO '' @ [quote] @ ''/tmp/kna1_stolen.csv'' @ [quote] @ '';''] \<and>
     list_all (\<lambda>q. \<exists>a b rest. parse_sql q = Inr (a # b # rest))
       [''SELECT 1; DROP TABLE kna1;'',
        ''BEGIN TRANSACTION; DROP TABLE kna1; COMMIT;'',
        ''SELECT * FROM kna1; /* bypass filter */ DROP TABLE kna1;'']"

lemma gate_on_shape:
  "parse_sql q = Inr [Query s] \<Longrightarrow> gate_passes parse_sql q"
  "parse_sql q = Inr [Other_Statement o'] \<Longrightarrow> gate_blocks parse_sql q ''SECURITY VIOLATION''"
  "parse_sql q = Inr [Other_Statement o'] \<Longrightarrow> gate_blocks parse_sql q ''pure SELECT queries are permitted''"
  "parse_sql q = Inr (a # b # rest) \<Longrightarrow> gate_blocks parse_sql q ''Multiple SQL statements detected''"
  "parse_sql q = Inr (a # b # rest) \<Longrightarrow> gate_blocks parse_sql q ''Multiple SQL statements''"
proof -
  have texts: "str_contains (display NotASelect) ''SECURITY VIOLATION''"
    "str_contains (display NotASelect) ''pure SELECT queries are permitted''"
    "str_contains (display MultipleStatements) ''Multiple SQL statements detected''"
    "str_contains (display MultipleStatements) ''Multiple SQL statements''"
    by code_simp+
  show "parse_sql q = Inr [Query s] \<Longrightarrow> gate_passes parse_sql q"
    "parse_sql q = Inr [Other_Statement o'] \<Longrightarrow> gate_blocks parse_sql q ''SECURITY VIOLATION''"
    "parse_sql q = Inr [Other_Statement o'] \<Longrightarrow> gate_blocks parse_sql q ''pure SELECT queries are permitted''"
    "parse_sql q = Inr (a # b # rest) \<Longrightarrow> gate_blocks parse_sql q ''Multiple SQL statements detected''"
    "parse_sql q = Inr (a # b # rest) \<Longrightarrow> gate_blocks parse_sql q ''Multiple SQL statements''"
    using texts by (simp_all add: gate_passes_def gate_blocks_def validate_sql_is_safe_def del: display.simps)
qed

lemma gate_tests:
  assumes "reads_sql parse_sql"
  shows "test_valid_select_passes parse_sql"
    "test_drop_table_blocked parse_sql"
    "test_multi_statement_blocked parse_sql"
    "test_insert_blocked parse_sql"
    "test_golden_heavy_aggregation parse_sql"
    "test_golden_cte_with_clause parse_sql"
    "test_golden_window_function parse_sql"
    "test_golden_complex_self_join parse_sql"
    "test_golden_casting_and_coalesce parse_sql"
    "test_golden_attack_truncate parse_sql"
    "test_golden_attack_alter_schema parse_sql"
    "test_golden_attack_exfiltration_copy parse_sql"
    "test_golden_attack_transaction_block parse_sql"
    "test_golden_attack_comment_obfuscated_injection parse_sql"
proof -
  note shapes = assms [unfolded reads_sql_def]
  have pass: "list_all (gate_passes parse_sql) qs" if "list_all (\<lambda>q. \<exists>s. parse_sql q = Inr [Query s]) qs" for qs
    using that by (auto simp: list_all_iff intro: gate_on_shape)
  have other: "list_all (\<lambda>q. gate_blocks parse_sql q ''SECURITY VIOLATION'') qs \<and>
      list_all (\<lambda>q. gate_blocks parse_sql q ''pure SELECT queries are permitted'') qs"
    if "list_all (\<lambda>q. \<exists>s. parse_sql q = Inr [Other_Statement s]) qs" for qs
    using that by (auto simp: list_all_iff intro: gate_on_shape)
  have several: "list_all (\<lambda>q. gate_blocks parse_sql q ''Multiple SQL statements detected'') qs \<and>
      list_all (\<lambda>q. gate_blocks parse_sql q ''Multiple SQL statements'') qs"
    if "list_all (\<lambda>q. \<exists>a b rest. parse_sql q = Inr (a # b # rest)) qs" for qs
    using that by (auto simp: list_all_iff intro: gate_on_shape)
  show "test_valid_select_passes parse_sql"
    "test_golden_heavy_aggregation parse_sql"
    "test_golden_cte_with_clause parse_sql"
    "test_golden_window_function parse_sql"
    "test_golden_complex_self_join parse_sql"
    "test_golden_casting_and_coalesce parse_sql"
    unfolding test_valid_select_passes_def
      test_golden_heavy_aggregation_def
      test_golden_cte_with_clause_def
      test_golden_window_function_def
      test_golden_complex_self_join_def
      test_golden_casting_and_coalesce_def
    using pass [OF shapes [THEN conjunct1]] by (simp_all only: list.pred_inject simp_thms)
  show "test_drop_table_blocked parse_sql"
    "test_insert_blocked parse_sql"
    "test_golden_attack_truncate parse_sql"
    "test_golden_attack_alter_schema parse_sql"
    "test_golden_attack_exfiltration_copy parse_sql"
    unfolding test_drop_table_blocked_def
      test_insert_blocked_def
      test_golden_attack_truncate_def
      test_golden_attack_alter_schema_def
      test_golden_attack_exfiltration_copy_def
    using other [OF shapes [THEN conjunct2, THEN conjunct1]] by (simp_all only: list.pred_inject simp_thms)
  show "test_multi_statement_blocked parse_sql"
    "test_golden_attack_transaction_block parse_sql"
    "test_golden_attack_comment_obfuscated_injection parse_sql"
    unfolding test_multi_statement_blocked_def
      test_golden_attack_transaction_block_def
      test_golden_attack_comment_obfuscated_injection_def
    using several [OF shapes [THEN conjunct2, THEN conjunct2]] by (simp_all only: list.pred_inject simp_thms)
qed

section \<open>\<open>engines/sql.rs\<close>\<close>

text \<open>The batch of the test is \<open>batch\<close>; \<open>from_str\<close> reads a line as an object, \<open>index\<close> a member of it,
  whose value is a text or a number.\<close>

definition test_record_batches_to_json_lines_formatting where
  "test_record_batches_to_json_lines_formatting arr batch from_str index \<longleftrightarrow>
     (case record_batches_to_json_lines arr [batch] of
        Inl _ \<Rightarrow> False
      | Inr lns \<Rightarrow> length lns = 2 \<and>
          (case (from_str (lns ! 0), from_str (lns ! 1)) of
             (Inr parsed_1, Inr parsed_2) \<Rightarrow>
               index parsed_1 ''kunnr'' = Inl ''1000'' \<and> index parsed_1 ''count'' = Inr (42 :: int) \<and>
               index parsed_2 ''kunnr'' = Inl ''2000'' \<and> index parsed_2 ''count'' = Inr 99
           | _ \<Rightarrow> False))"

lemma sql_test:
  assumes "encode_rows arr batch = Inr [r1, r2]" "object_text r1" "object_text r2"
    and "from_str r1 = Inr v1" "index v1 ''kunnr'' = Inl ''1000''" "index v1 ''count'' = Inr 42"
    and "from_str r2 = Inr v2" "index v2 ''kunnr'' = Inl ''2000''" "index v2 ''count'' = Inr 99"
  shows "test_record_batches_to_json_lines_formatting arr batch from_str index"
proof -
  have "record_batches_to_json_lines arr [batch] = Inr [r1, r2]"
    using record_batches_json [of "[batch]" arr "\<lambda>_. [r1, r2]"] assms(1-3) by simp
  with assms(4-) show ?thesis by (simp add: test_record_batches_to_json_lines_formatting_def)
qed

end
