(* ===== verification/Spec2Isabelle.thy ===== *)
theory Spec2Isabelle
  imports Process Cache_Refinement Unit_Tests
begin

text \<open>
  A model of rust-enterprise-query-engine: questions over SAP customer data (table KNA1), answered by
  SQL over the CSV, or by hybrid search over a vector database with a local language model whose
  answers are checked against the rows they cite.

  \<^bold>\<open>Parts and their theories.\<close> From the bottom up; each theory follows the order of its source.

  \<^item> \<open>Prelude\<close>: results (\<open>err + 'a\<close>), effects (\<open>('w, 'e, 'a) io\<close>: a function from the state of the
    outside to a result and the next state; \<open>io_try\<close> is \<open>?\<close>), stable sorting (\<open>sort_by\<close>) with the
    interface \<open>comparator\<close>.
  \<^item> \<open>Rust_Str\<close>: \<open>trim\<close>, \<open>strip_prefix\<close>, \<open>lines\<close>, \<open>split\<close>, number parsing and UTF-8 checking; a
    string is its list of bytes.
  \<^item> \<open>F32\<close>, \<open>F32_Bounds\<close>: IEEE binary32 on bit patterns with rounding to nearest even, as far as the
    code uses it (add, multiply, divide, square root, comparisons, \<open>total_cmp\<close>), and the bounds the
    normalisation needs.
  \<^item> \<open>Types\<close>: \<open>common/types.rs\<close>, the errors with their texts, configuration from the environment.
  \<^item> \<open>Semantic_Cache\<close>: \<open>engines/cache.rs\<close>. The record \<open>semantic_cache\<close> is the locked vector with the
    lock's poison flag; \<open>get_exact\<close>, \<open>get_similar\<close>, \<open>cache_insert\<close> are atomic under the lock; the
    clock is an argument. \<open>response_store\<close> is the interface the pipelines rely on.
    \<open>Cache_Refinement\<close>: the abstract LRU queue (\<open>lru_step\<close>, \<open>lru_run\<close>: no clock, no positions, no
    lock) and the simulation of every run of the cache by it.
  \<^item> \<open>Rank_Fusion\<close>: \<open>engines/rank_fusion.rs\<close>, in binary32; the order of the hash map is a parameter.
  \<^item> \<open>Embeddings\<close>: \<open>engines/embeddings.rs\<close>: files and downloads of the loader, the flat buffer
    \<open>EmbeddingBatch\<close> with checked arithmetic, batching limits, normalisation.
  \<^item> \<open>Rerank\<close>: \<open>engines/rerank.rs\<close>.
  \<^item> \<open>Sql_Engine\<close>: \<open>engines/ast_guard.rs\<close> and \<open>sql.rs\<close>: the gate, the row limit, JSON lines.
  \<^item> \<open>Vector_Store\<close>: \<open>engines/vector.rs\<close>: hybrid search, fallback search, insertion, health, indexes.
  \<^item> \<open>Firewall\<close>, \<open>Prompts\<close>, \<open>Llm\<close>: \<open>pipelines/query/firewall.rs\<close>, \<open>prompts.rs\<close>, \<open>ollama.rs\<close>,
    \<open>intent.rs\<close>, and \<open>classify_intent\<close> of \<open>router.rs\<close>.
  \<^item> \<open>Pipeline\<close>: \<open>pipelines/query/mod.rs\<close> and \<open>router.rs\<close>. \<open>app_state\<close> is \<open>AppState\<close> with the crates it
    calls; a run works on the pair of the cache and the outside. \<open>run_semantic_pipeline\<close> is cut into
    the stages \<open>parse_and_answer\<close>, \<open>embed_and_look\<close>, \<open>search_and_answer\<close>, \<open>generate_answer\<close> and
    \<open>store_and_return\<close>, each continuing into the next as the function does.
  \<^item> \<open>Concurrent\<close>: the same pipeline as the state machine of its atomic accesses to the cache and its
    awaits (\<open>client_step\<close>), and any number of such clients over one cache in any order (\<open>concurrent\<close>).
  \<^item> \<open>Ingest\<close>: \<open>pipelines/ingest\<close>.
  \<^item> \<open>Http\<close>, \<open>Grpc\<close>, \<open>Cli\<close>: \<open>gateway/http\<close>, \<open>gateway/grpc/service.rs\<close>, \<open>gateway/cli.rs\<close>, \<open>run\<close> of
    \<open>gateway/mod.rs\<close> and \<open>main.rs\<close>.
  \<^item> \<open>Server\<close>: both doors over one state: the reachable caches (\<open>serving\<close>) and the interface
    \<open>answering\<close> of a door over a pipeline. The properties of the whole service stand below.
  \<^item> \<open>Tasks\<close>: a request of either door as the runtime runs it, a task (\<open>http_task\<close>, \<open>rpc_task\<close>) that
    stops at its awaits and at its accesses to the cache (\<open>http_step\<close>, \<open>rpc_step\<close>); the interface
    \<open>answering_machine\<close> gives that a task alone does what its handler does.
  \<^item> \<open>Sockets\<close>: \<open>gateway/http/socket.rs\<close> over the kernel's calls. \<open>Lifecycle\<close>: \<open>shutdown_signal\<close> and
    \<open>start_server\<close> of \<open>gateway/http/mod.rs\<close>, \<open>start_dual_server\<close> of \<open>gateway/mod.rs\<close>: the signal's task
    (\<open>shutdown_step\<close>), the watch channel, a server from its boot over accepting and draining to its end
    (\<open>door_step\<close>: requests enter as tasks, any task takes its next step, a task done is answered, a
    client may hang up), and two of them joined (\<open>dual_step\<close>), as step relations in which all take
    turns in any order. Interface \<open>hosted\<close>: what a server relies on in the service it hosts.
  \<^item> \<open>Telemetry\<close>, \<open>Process\<close>: \<open>common/telemetry.rs\<close> and the whole process: logger, command, exit code; the
    command \<open>serve\<close> down to the steps of its servers.
  \<^item> \<open>Unit_Tests\<close>: the tests inside the sources, translated and shown to hold of the model.

  \<^bold>\<open>What the lemmas show.\<close>
  Grounding: the firewall accepts a positive answer exactly with a verbatim quote of a retrieved chunk
  (\<open>Firewall\<close>), chunks are the JSON of database rows (\<open>Vector_Store\<close>), the stages keep that and the
  cache stays good (\<open>Pipeline\<close>), in every interleaving of clients (\<open>Concurrent\<close>), hence no door ever
  passes on anything else (below). The state machine refines the pipeline and always finishes.
  Cache: every run of it is a run of a bounded LRU queue, and its size is bounded in every
  interleaving of its operations. Search: result size, distinct identifiers, fused order, dominance,
  obeyed exclusions, literals that cannot be broken out of. SQL: only a single query reaches the engine, from a user or
  from the model; rows survive rendering, the HTTP framing and the read back. Ingestion: the primary
  key is kept on every path, errors included, and ingesting a file again changes no identifier.
  Buffers and arithmetic: no index out of range, no NaN or infinity from normalising finite vectors. Doors: the same outcomes, refusals and health reports.
  Command line: which queries run, what is printed, the exit code, and that the router loop
  initialises once. Lives of the servers: no request is lost, shutdown answers what was accepted, the
  listener is made completely or not at all. The process: \<open>serve\<close> ends with status 0 only after all of this.

  \<^bold>\<open>Parameters.\<close> Crates and services are arguments: LanceDB (\<open>lancedb\<close>), DataFusion (\<open>datafusion\<close>),
  the Arrow encoder (\<open>arrow\<close>), sqlparser, serde (deserialisers and serialisers), reqwest (\<open>http\<close>), the
  tokenizer and the models (\<open>bert\<close>, \<open>cross_encoder\<close>), axum and tower (\<open>web\<close>), hash map orders and the
  clock. What a property needs of them is a named hypothesis: \<open>codec_ok\<close> (reading what was written
  gives it back), \<open>order_sound\<close> (a map's iteration yields its entries), \<open>customers_law\<close> (the table
  operations), the row law of \<open>df_limit\<close>, \<open>serves_dual\<close> (the outcome of \<open>start_dual_server\<close> the dispatcher sees is
  one its steps lead to); each has a witness with a concrete instance (an in-memory
  table, \<open>demo_app\<close>). Panics of a task are the error \<open>Panic\<close>.

  \<^bold>\<open>Bounds.\<close> \<open>usize\<close> is \<open>nat\<close> with the overflow checks of the code written against \<open>2 ^ 64\<close>; \<open>uint32\<close> and
  \<open>uint64\<close> of the protocol are words. Recursions are structural over the data the code iterates over
  or have a measure (bytes of a text, rows or values left, bits of a root); there is no fuel, every
  function is total. The retry loop runs over its two attempts; a client has seven steps, an HTTP task
  ten and a gRPC task nine; a draining server has the steps left of the tasks it holds, one answer each,
  and one step more to close.

  \<^bold>\<open>Not modelled.\<close> \<open>build.rs\<close> and module declarations: generated code. The lines of the log. The insides of axum, tonic and tokio: \<open>Lifecycle\<close> takes their servers, channel and
  \<open>select!\<close> as documented. In \<open>serving\<close> whole requests follow one another; the interleaving of their
  steps is the matter of \<open>Concurrent\<close> and \<open>Lifecycle\<close>, where the calls to the outside between two
  accesses to the cache are one step. The text of a JSON response
  body other than the SQL array is left at the value that is serialised.
\<close>

section \<open>Properties of the running service\<close>

text \<open>No ungrounded answer leaves the service: whatever requests both doors have served before, in
  any order and with any behaviour of model, database and network in between, an answer that an HTTP
  endpoint returns as verified and found, and every record a gRPC answer scores 1.0, quotes verbatim
  the text of a database row with the identifier it names.\<close>

theorem server_answers_grounded:
  assumes "codec_ok s" "order_sound (chunk_order s)" "serving s web cap thr c"
  shows "(\<forall>req w body st p. create_router s web req (c, w) = ((200, body), st) \<and>
      body_answer body = Some (Verified p) \<and> answer_found p \<longrightarrow>
      (\<exists>name city. str_contains (chunk_text s (source_chunk_id p) name city) (exact_quote p))) \<and>
    (\<forall>req w resp st. execute_semantic s req (c, w) = (Inr resp, st) \<longrightarrow>
      (\<forall>rc \<in> set (records resp). rec_score rc = f32_one \<longrightarrow>
        (\<exists>name city. str_contains (chunk_text s (rec_kunnr rc) name city) (rec_sentence rc))))"
proof -
  have sound: "sound_state s (c, w)" for w using serving_sound [OF assms] .
  have "\<exists>name city. str_contains (chunk_text s (source_chunk_id p) name city) (exact_quote p)"
    if "create_router s web req (c, w) = ((200, body), st)" "body_answer body = Some (Verified p)"
      "answer_found p" for req w body st p
    using router_safe [where reply = "(200, body)" and c' = "fst st" and w' = "snd st", OF sound, of web req] that
    by (simp add: safe_answer_def grounded_def)
  moreover have "\<exists>name city. str_contains (chunk_text s (rec_kunnr rc) name city) (rec_sentence rc)"
    if "execute_semantic s req (c, w) = (Inr resp, st)" "rc \<in> set (records resp)"
      "rec_score rc = f32_one" for req w resp st rc
    using semantic_rpc_safe [where r = "Inr resp" and c' = "fst st" and w' = "snd st", OF sound, of req] that
    by (auto intro: semantic_records_safe)
  ultimately show ?thesis by blast
qed

theorem server_answers_grounded_witness:
  "\<exists>c st. serving (demo_app (\<lambda>_. Inr ''A'')) demo_web 4 f32_one c \<and>
     create_router (demo_app (\<lambda>_. Inr ''A'')) demo_web (post ''/query/semantic'' ''who'') (c, demo_table) =
       ((200, Semantic_Body (Verified demo_answer)), st) \<and>
     (\<exists>name city. str_contains (demo_json ''1000'' name city) ''Acme Berlin'')"
proof -
  let ?s = "demo_app (\<lambda>_. Inr ''A'')" and ?c = "cache_new 4 f32_one"
  have boot: "serving ?s demo_web 4 f32_one ?c" by (rule serving.boot)
  obtain c' where run: "create_router ?s demo_web (post ''/query/semantic'' ''who'') (?c, demo_table) =
      ((200, Semantic_Body (Verified demo_answer)), (c', demo_table))"
    using demo_post by blast
  moreover have "body_answer (Semantic_Body (Verified demo_answer)) = Some (Verified demo_answer)"
    "answer_found demo_answer"
    by (simp_all add: demo_answer_def)
  ultimately have "\<exists>name city. str_contains (chunk_text ?s (source_chunk_id demo_answer) name city)
      (exact_quote demo_answer)"
    using server_answers_grounded [OF demo_codec demo_order_sound boot] by blast
  then show ?thesis using boot run by (auto simp: demo_app_def demo_answer_def)
qed



text \<open>C22: The three health reports tell the same story: from the same state the command line and the HTTP
  endpoint give the same report but for the cache, gRPC the same status, flags and (as \<open>uint64\<close>) number
  of records; the endpoint answers 503 exactly when the database cannot be reached, and the service is
  healthy exactly when model and database both can.\<close>

theorem health_reports_agree:
  "case health_handler s (c, w) of ((code, report), (c', w')) \<Rightarrow>
     c' = c \<and>
     health_report s w = (report\<lparr>cache_entries := 0\<rparr>, w') \<and>
     (\<exists>w2. check_health s (c, w) =
        (\<lparr>rpc_status_text = status report, rpc_llm_connected = llm_connected report,
          rpc_vector_db_connected = vector_db_connected report,
          rpc_total_records = of_nat (total_records report)\<rparr>, (c, w2))) \<and>
     code = (if vector_db_connected report then 200 else 503) \<and>
     (status report = ''healthy'') = (llm_connected report \<and> vector_db_connected report)"
  by (auto simp: health_handler_def health_report_def check_health_def Let_def
      split: prod.split sum.split)

end
